theory Spec2Isabelle
  imports Main "HOL-Library.Word"
begin

section \<open>The vtpc block cache (lab/vtpc/lib/vtpc.c)\<close>

text \<open>
  A shallow embedding of the user-space block cache: the pool of cache blocks, the table of
  open files, the eviction scan, and the six calls open, close, read, write, lseek, fsync.
  The C globals \<^verbatim>\<open>cache\<close>, \<^verbatim>\<open>cache_initialized\<close> and \<^verbatim>\<open>open_files\<close> are the fields
  of one state record that every function takes and returns. The system calls the library
  makes (open, fstat, close, pread, pwrite, lseek, write, fsync, ftruncate, posix_memalign)
  are functions on a record \<open>os_state\<close> that is part of that state.
\<close>

subsection \<open>Machine integers\<close>

text \<open>
  \<^verbatim>\<open>off_t\<close> and \<^verbatim>\<open>ssize_t\<close> are signed 64-bit, \<^verbatim>\<open>size_t\<close> is unsigned 64-bit. Values are
  integers; a conversion to \<^verbatim>\<open>size_t\<close> is \<open>u64\<close>, a conversion to \<^verbatim>\<open>off_t\<close> (and signed
  arithmetic, taken as wrapping) is \<open>s64\<close>. The access counter is a 64-bit word.
\<close>

type_synonym byte = "8 word"

definition u64 :: "int \<Rightarrow> int" where
  "u64 x = x mod 2 ^ 64"

definition s64 :: "int \<Rightarrow> int" where
  "s64 x = (x + 2 ^ 63) mod 2 ^ 64 - 2 ^ 63"

definition BLOCK_SIZE :: int where
  "BLOCK_SIZE = 4096"

definition CACHE_SIZE_BLOCKS :: nat where
  "CACHE_SIZE_BLOCKS = 1024"

definition MAX_OPEN_FILES :: nat where
  "MAX_OPEN_FILES = 128"

definition SEEK_SET :: int where "SEEK_SET = 0"
definition SEEK_CUR :: int where "SEEK_CUR = 1"
definition SEEK_END :: int where "SEEK_END = 2"

definition O_DIRECT :: int where "O_DIRECT = 16384"

definition EIO :: int where "EIO = 5"
definition EBADF :: int where "EBADF = 9"
definition ENOMEM :: int where "ENOMEM = 12"
definition EINVAL :: int where "EINVAL = 22"
definition EMFILE :: int where "EMFILE = 24"

subsection \<open>The operating system the library calls\<close>

text \<open>
  The backing store is outside the library. Its model keeps, for every raw descriptor, the
  bytes of the file behind it and the file position; the list of open descriptors; a log of
  the calls made; and a list \<open>faults\<close> that fixes the outcome of the coming calls, one entry
  per call: \<open>Normal\<close>, \<open>Fail\<close> (the call returns -1) or \<open>Short k\<close> (a transfer moves at
  most \<open>k\<close> bytes). With the list empty every call takes its normal course. Two descriptors
  never share a file in this model.
\<close>

datatype outcome = Normal | Fail | Short nat

datatype syscall =
    Sys_memalign
  | Sys_open string int int
  | Sys_fstat int
  | Sys_close int
  | Sys_pread int int int
  | Sys_pwrite int "byte list" int
  | Sys_lseek int int
  | Sys_write int "byte list"
  | Sys_fsync int
  | Sys_ftruncate int int
  | Sys_perror string

record os_state =
  files :: "int \<Rightarrow> byte list"
  fpos :: "int \<Rightarrow> int"
  opened :: "int list"
  faults :: "outcome list"
  trace :: "syscall list"
  errno :: int
  uninit :: "nat \<Rightarrow> byte"

definition sys_enter :: "syscall \<Rightarrow> os_state \<Rightarrow> outcome \<times> os_state" where
  "sys_enter c os =
     (case faults os of
        [] \<Rightarrow> (Normal, os\<lparr>trace := trace os @ [c]\<rparr>)
      | x # xs \<Rightarrow> (x, os\<lparr>faults := xs, trace := trace os @ [c]\<rparr>))"

definition limit :: "outcome \<Rightarrow> 'a list \<Rightarrow> 'a list" where
  "limit oc xs = (case oc of Short k \<Rightarrow> take k xs | _ \<Rightarrow> xs)"

definition store :: "byte list \<Rightarrow> nat \<Rightarrow> byte list \<Rightarrow> byte list" where
  "store f off bs =
     (if bs = [] then f
      else take off (f @ replicate (off - length f) 0) @ bs @ drop (off + length bs) f)"

definition resize :: "byte list \<Rightarrow> nat \<Rightarrow> byte list" where
  "resize f n = take n (f @ replicate (n - length f) 0)"

definition fresh_fd :: "int list \<Rightarrow> int" where
  "fresh_fd ds = hd (filter (\<lambda>d. d \<notin> set ds) (map int [0..<Suc (length ds)]))"

definition os_posix_memalign :: "os_state \<Rightarrow> int \<Rightarrow> int \<times> byte list \<times> os_state" where
  "os_posix_memalign os n =
     (let (oc, os1) = sys_enter Sys_memalign os in
      if oc = Fail then (ENOMEM, [], os1)
      else (0, map (uninit os1) [0..<nat n], os1))"

definition os_open :: "os_state \<Rightarrow> string \<Rightarrow> int \<Rightarrow> int \<Rightarrow> int \<times> os_state" where
  "os_open os path fl mode =
     (let (oc, os1) = sys_enter (Sys_open path fl mode) os in
      if oc = Fail then (-1, os1\<lparr>errno := EIO\<rparr>)
      else (let d = fresh_fd (opened os1)
            in (d, os1\<lparr>opened := d # opened os1, fpos := (fpos os1)(d := 0)\<rparr>)))"

definition os_fstat :: "os_state \<Rightarrow> int \<Rightarrow> int \<times> int \<times> os_state" where
  "os_fstat os d =
     (let (oc, os1) = sys_enter (Sys_fstat d) os in
      if oc = Fail \<or> d \<notin> set (opened os1) then (-1, 0, os1\<lparr>errno := EIO\<rparr>)
      else (0, int (length (files os1 d)), os1))"

definition os_close :: "os_state \<Rightarrow> int \<Rightarrow> int \<times> os_state" where
  "os_close os d =
     (let (oc, os1) = sys_enter (Sys_close d) os in
      if d \<notin> set (opened os1) then (-1, os1\<lparr>errno := EBADF\<rparr>)
      else (let os2 = os1\<lparr>opened := removeAll d (opened os1)\<rparr>
            in if oc = Fail then (-1, os2\<lparr>errno := EIO\<rparr>) else (0, os2)))"

definition os_pread :: "os_state \<Rightarrow> int \<Rightarrow> int \<Rightarrow> int \<Rightarrow> int \<times> byte list \<times> os_state" where
  "os_pread os d n off =
     (let (oc, os1) = sys_enter (Sys_pread d n off) os in
      if oc = Fail \<or> d \<notin> set (opened os1) \<or> off < 0 then (-1, [], os1\<lparr>errno := EIO\<rparr>)
      else (let got = limit oc (take (nat n) (drop (nat off) (files os1 d)))
            in (int (length got), got, os1)))"

definition os_pwrite :: "os_state \<Rightarrow> int \<Rightarrow> byte list \<Rightarrow> int \<Rightarrow> int \<Rightarrow> int \<times> os_state" where
  "os_pwrite os d buf n off =
     (let (oc, os1) = sys_enter (Sys_pwrite d (take (nat n) buf) off) os in
      if oc = Fail \<or> d \<notin> set (opened os1) \<or> off < 0 then (-1, os1\<lparr>errno := EIO\<rparr>)
      else (let put = limit oc (take (nat n) buf)
            in (int (length put),
                os1\<lparr>files := (files os1)(d := store (files os1 d) (nat off) put)\<rparr>)))"

definition os_lseek :: "os_state \<Rightarrow> int \<Rightarrow> int \<Rightarrow> int \<times> os_state" where
  "os_lseek os d off =
     (let (oc, os1) = sys_enter (Sys_lseek d off) os in
      if oc = Fail \<or> d \<notin> set (opened os1) \<or> off < 0 then (-1, os1\<lparr>errno := EIO\<rparr>)
      else (off, os1\<lparr>fpos := (fpos os1)(d := off)\<rparr>))"

definition os_write :: "os_state \<Rightarrow> int \<Rightarrow> byte list \<Rightarrow> int \<Rightarrow> int \<times> os_state" where
  "os_write os d buf n =
     (let (oc, os1) = sys_enter (Sys_write d (take (nat n) buf)) os in
      if oc = Fail \<or> d \<notin> set (opened os1) then (-1, os1\<lparr>errno := EIO\<rparr>)
      else (let put = limit oc (take (nat n) buf)
            in (int (length put),
                os1\<lparr>files := (files os1)(d := store (files os1 d) (nat (fpos os1 d)) put),
                    fpos := (fpos os1)(d := fpos os1 d + int (length put))\<rparr>)))"

definition os_fsync :: "os_state \<Rightarrow> int \<Rightarrow> int \<times> os_state" where
  "os_fsync os d =
     (let (oc, os1) = sys_enter (Sys_fsync d) os in
      if oc = Fail \<or> d \<notin> set (opened os1) then (-1, os1\<lparr>errno := EIO\<rparr>)
      else (0, os1))"

definition os_ftruncate :: "os_state \<Rightarrow> int \<Rightarrow> int \<Rightarrow> int \<times> os_state" where
  "os_ftruncate os d len =
     (let (oc, os1) = sys_enter (Sys_ftruncate d len) os in
      if oc = Fail \<or> d \<notin> set (opened os1) \<or> len < 0 then (-1, os1\<lparr>errno := EIO\<rparr>)
      else (0, os1\<lparr>files := (files os1)(d := resize (files os1 d) (nat len))\<rparr>))"

definition os_perror :: "os_state \<Rightarrow> string \<Rightarrow> os_state" where
  "os_perror os msg = os\<lparr>trace := trace os @ [Sys_perror msg]\<rparr>"

subsection \<open>The pool and the table\<close>

record CacheBlock =
  data :: "byte list"
  fd :: int
  block_index :: int
  dirty :: bool
  frequency :: "64 word"
  valid :: bool

record FileContext =
  os_fd :: int
  current_offset :: int
  file_size :: int
  flags :: int

record vtpc_state =
  cache :: "CacheBlock list"
  cache_initialized :: bool
  open_files :: "FileContext list"
  sys :: os_state

definition set_errno :: "int \<Rightarrow> vtpc_state \<Rightarrow> vtpc_state" where
  "set_errno e s = s\<lparr>sys := (sys s)\<lparr>errno := e\<rparr>\<rparr>"

text \<open>The statics before the first call: every byte zero, so no buffer and descriptor 0.\<close>

definition static_state :: "os_state \<Rightarrow> vtpc_state" where
  "static_state os =
     \<lparr>cache = replicate CACHE_SIZE_BLOCKS
        \<lparr>data = [], fd = 0, block_index = 0, dirty = False, frequency = 0, valid = False\<rparr>,
      cache_initialized = False,
      open_files = replicate MAX_OPEN_FILES
        \<lparr>os_fd = 0, current_offset = 0, file_size = 0, flags = 0\<rparr>,
      sys = os\<rparr>"

subsection \<open>init_cache\<close>

fun init_cache_alloc :: "vtpc_state \<Rightarrow> nat list \<Rightarrow> bool \<times> vtpc_state" where
  "init_cache_alloc s [] = (True, s)"
| "init_cache_alloc s (i # is) =
     (let (rc, buf, os1) = os_posix_memalign (sys s) BLOCK_SIZE;
          s1 = s\<lparr>sys := os1\<rparr>
      in if rc \<noteq> 0 then (False, set_errno ENOMEM s1)
         else init_cache_alloc
                (s1\<lparr>cache := (cache s1)[i := (cache s1 ! i)
                   \<lparr>data := buf, fd := -1, dirty := False, frequency := 0, valid := False\<rparr>]\<rparr>)
                is)"

fun init_open_files :: "FileContext list \<Rightarrow> nat list \<Rightarrow> FileContext list" where
  "init_open_files fs [] = fs"
| "init_open_files fs (i # is) = init_open_files (fs[i := (fs ! i)\<lparr>os_fd := -1\<rparr>]) is"

definition init_cache :: "vtpc_state \<Rightarrow> int \<times> vtpc_state" where
  "init_cache s =
     (if cache_initialized s then (0, s)
      else (case init_cache_alloc s [0..<CACHE_SIZE_BLOCKS] of
              (False, s1) \<Rightarrow> (-1, s1)
            | (True, s1) \<Rightarrow>
                (0, s1\<lparr>open_files := init_open_files (open_files s1) [0..<MAX_OPEN_FILES],
                       cache_initialized := True\<rparr>)))"

subsection \<open>find_cache_block\<close>

fun find_loop :: "CacheBlock list \<Rightarrow> int \<Rightarrow> int \<Rightarrow> nat list \<Rightarrow> int" where
  "find_loop c d b [] = -1"
| "find_loop c d b (i # is) =
     (if valid (c ! i) \<and> fd (c ! i) = d \<and> block_index (c ! i) = b then int i
      else find_loop c d b is)"

definition find_cache_block :: "vtpc_state \<Rightarrow> int \<Rightarrow> int \<Rightarrow> int" where
  "find_cache_block s d b = find_loop (cache s) d b [0..<CACHE_SIZE_BLOCKS]"

subsection \<open>evict_block\<close>

text \<open>
  The scan either returns from inside the loop, at the first slot that is not valid, or
  runs to the end with a candidate, which starts at -1. (The C variable \<^verbatim>\<open>first_invalid\<close>
  is written and never read; it has no counterpart here.)
\<close>

datatype scan = Returned int | Scanned int

fun evict_scan :: "CacheBlock list \<Rightarrow> int \<Rightarrow> 64 word \<Rightarrow> nat list \<Rightarrow> scan" where
  "evict_scan c candidate max_freq [] = Scanned candidate"
| "evict_scan c candidate max_freq (i # is) =
     (if \<not> valid (c ! i) then Returned (int i)
      else if candidate = -1 \<or> frequency (c ! i) > max_freq
        then evict_scan c (int i) (frequency (c ! i)) is
        else evict_scan c candidate max_freq is)"

definition evict_writeback :: "vtpc_state \<Rightarrow> CacheBlock \<Rightarrow> vtpc_state" where
  "evict_writeback s b =
     (let offset = s64 (block_index b * BLOCK_SIZE);
          (r, os1) = os_lseek (sys s) (fd b) offset;
          (written, os2) = os_write os1 (fd b) (data b) BLOCK_SIZE
      in s\<lparr>sys := (if written \<noteq> BLOCK_SIZE
                    then os_perror os2 ''vtpc: eviction write failed'' else os2)\<rparr>)"

definition evict_block :: "vtpc_state \<Rightarrow> int \<times> vtpc_state" where
  "evict_block s =
     (case evict_scan (cache s) (-1) 0 [0..<CACHE_SIZE_BLOCKS] of
        Returned i \<Rightarrow> (i, s)
      | Scanned candidate \<Rightarrow>
          if candidate \<noteq> -1 then
            (let b = cache s ! nat candidate;
                 s1 = (if dirty b then evict_writeback s b else s)
             in (candidate,
                 s1\<lparr>cache := (cache s1)[nat candidate :=
                      b\<lparr>valid := False, dirty := False, frequency := 0\<rparr>]\<rparr>))
          else (0, s))"

subsection \<open>vtpc_open\<close>

fun find_free_handle :: "FileContext list \<Rightarrow> nat list \<Rightarrow> int" where
  "find_free_handle fs [] = -1"
| "find_free_handle fs (i # is) =
     (if os_fd (fs ! i) = -1 then int i else find_free_handle fs is)"

definition vtpc_open :: "vtpc_state \<Rightarrow> string \<Rightarrow> int \<Rightarrow> int \<Rightarrow> int \<times> vtpc_state" where
  "vtpc_open s0 path fl mode =
     (let (rc, s) = (if \<not> cache_initialized s0 then init_cache s0 else (0, s0)) in
      if rc = -1 then (-1, s)
      else (let handle = find_free_handle (open_files s) [0..<MAX_OPEN_FILES] in
        if handle = -1 then (-1, set_errno EMFILE s)
        else (let (d, os1) = os_open (sys s) path (or fl O_DIRECT) mode in
          if d = -1 then (-1, s\<lparr>sys := os1\<rparr>)
          else (let (rc, st_size, os2) = os_fstat os1 d in
            if rc = -1 then (-1, s\<lparr>sys := snd (os_close os2 d)\<rparr>)
            else (handle,
                  s\<lparr>sys := os2,
                    open_files := (open_files s)[nat handle :=
                      \<lparr>os_fd = d, current_offset = 0, file_size = st_size, flags = fl\<rparr>]\<rparr>)))))"

subsection \<open>vtpc_fsync\<close>

text \<open>The flag of \<open>fsync_loop\<close> is False when the loop returned -1.\<close>

fun fsync_loop :: "vtpc_state \<Rightarrow> int \<Rightarrow> nat list \<Rightarrow> bool \<times> vtpc_state" where
  "fsync_loop s d [] = (True, s)"
| "fsync_loop s d (i # is) =
     (let b = cache s ! i in
      if valid b \<and> fd b = d \<and> dirty b then
        (let offset = s64 (block_index b * BLOCK_SIZE);
             (r, os1) = os_pwrite (sys s) d (data b) BLOCK_SIZE offset;
             s1 = s\<lparr>sys := os1\<rparr>
         in if r = -1 then (False, s1)
            else fsync_loop (s1\<lparr>cache := (cache s1)[i := b\<lparr>dirty := False\<rparr>]\<rparr>) d is)
      else fsync_loop s d is)"

definition bad_handle :: "vtpc_state \<Rightarrow> int \<Rightarrow> bool" where
  "bad_handle s h \<longleftrightarrow> h < 0 \<or> h \<ge> int MAX_OPEN_FILES \<or> os_fd (open_files s ! nat h) = -1"

definition vtpc_fsync :: "vtpc_state \<Rightarrow> int \<Rightarrow> int \<times> vtpc_state" where
  "vtpc_fsync s h =
     (if bad_handle s h then (-1, set_errno EBADF s)
      else (let d = os_fd (open_files s ! nat h) in
        case fsync_loop s d [0..<CACHE_SIZE_BLOCKS] of
          (False, s1) \<Rightarrow> (-1, s1)
        | (True, s1) \<Rightarrow>
            (let (res, os1) = os_fsync (sys s1) d in
             if res = -1 then (-1, s1\<lparr>sys := os1\<rparr>)
             else (let (rc, os2) = os_ftruncate os1 d (file_size (open_files s1 ! nat h))
                   in (res, s1\<lparr>sys := os2\<rparr>)))))"

subsection \<open>vtpc_close\<close>

fun close_loop :: "CacheBlock list \<Rightarrow> int \<Rightarrow> nat list \<Rightarrow> CacheBlock list" where
  "close_loop c d [] = c"
| "close_loop c d (i # is) =
     (if valid (c ! i) \<and> fd (c ! i) = d
      then close_loop (c[i := (c ! i)\<lparr>valid := False, dirty := False\<rparr>]) d is
      else close_loop c d is)"

definition vtpc_close :: "vtpc_state \<Rightarrow> int \<Rightarrow> int \<times> vtpc_state" where
  "vtpc_close s h =
     (if bad_handle s h then (-1, set_errno EBADF s)
      else (let d = os_fd (open_files s ! nat h);
                s1 = snd (vtpc_fsync s h);
                s2 = s1\<lparr>cache := close_loop (cache s1) d [0..<CACHE_SIZE_BLOCKS]\<rparr>;
                (res, os1) = os_close (sys s2) d
            in (res, s2\<lparr>sys := os1,
                        open_files := (open_files s2)[nat h :=
                          (open_files s2 ! nat h)\<lparr>os_fd := -1\<rparr>]\<rparr>)))"

subsection \<open>vtpc_read\<close>

text \<open>
  \<open>read_block\<close> is the lookup-or-evict-and-populate part of one round of the loop; its flag
  is False when the round returned -1 from the call.
\<close>

definition fill :: "byte list \<Rightarrow> int \<Rightarrow> byte list \<Rightarrow> byte list" where
  "fill buf r got =
     (let buf1 = got @ drop (length got) buf in
      if r < BLOCK_SIZE then take (nat r) buf1 @ replicate (nat (BLOCK_SIZE - r)) 0 else buf1)"

definition read_block :: "vtpc_state \<Rightarrow> int \<Rightarrow> int \<Rightarrow> bool \<times> int \<times> vtpc_state" where
  "read_block s d block_idx =
     (let cache_idx = find_cache_block s d block_idx in
      if cache_idx = -1 then
        (let (cache_idx, s1) = evict_block s;
             disk_offset = s64 (block_idx * BLOCK_SIZE);
             b = cache s1 ! nat cache_idx;
             (r, got, os1) = os_pread (sys s1) d BLOCK_SIZE disk_offset;
             s2 = s1\<lparr>sys := os1\<rparr>
         in if r = -1 then (False, cache_idx, s2)
            else (True, cache_idx,
                  s2\<lparr>cache := (cache s2)[nat cache_idx :=
                       b\<lparr>data := fill (data b) r got, fd := d, block_index := block_idx,
                         dirty := False, frequency := 1, valid := True\<rparr>]\<rparr>))
      else (let b = cache s ! nat cache_idx
            in (True, cache_idx,
                s\<lparr>cache := (cache s)[nat cache_idx := b\<lparr>frequency := frequency b + 1\<rparr>]\<rparr>)))"

datatype rd = Rd_failed "byte list" vtpc_state | Rd_done int "byte list" vtpc_state

function read_loop :: "vtpc_state \<Rightarrow> int \<Rightarrow> int \<Rightarrow> int \<Rightarrow> int \<Rightarrow> byte list \<Rightarrow> rd" where
  "read_loop s d offset count bytes_read user_buf =
     (if bytes_read < count then
        (let block_idx = u64 (offset + bytes_read) div BLOCK_SIZE;
             offset_in_block = u64 (offset + bytes_read) mod BLOCK_SIZE;
             to_copy = (if BLOCK_SIZE - offset_in_block > count - bytes_read
                        then count - bytes_read else BLOCK_SIZE - offset_in_block)
         in case read_block s d block_idx of
              (False, cache_idx, s1) \<Rightarrow> Rd_failed user_buf s1
            | (True, cache_idx, s1) \<Rightarrow>
                read_loop s1 d offset count (bytes_read + to_copy)
                  (user_buf @ take (nat to_copy)
                     (drop (nat offset_in_block) (data (cache s1 ! nat cache_idx)))))
      else Rd_done bytes_read user_buf s)"
  by pat_completeness auto
termination
  by (relation "measure (\<lambda>(s, d, offset, count, bytes_read, user_buf). nat (count - bytes_read))")
     (auto simp: BLOCK_SIZE_def)

definition clamp_count :: "int \<Rightarrow> int \<Rightarrow> int \<Rightarrow> int" where
  "clamp_count offset file_sz count =
     (if u64 (u64 offset + count) > u64 file_sz then u64 (s64 (file_sz - offset)) else count)"

definition vtpc_read :: "vtpc_state \<Rightarrow> int \<Rightarrow> int \<Rightarrow> int \<times> byte list \<times> vtpc_state" where
  "vtpc_read s h count0 =
     (if bad_handle s h then (-1, [], set_errno EBADF s)
      else (let d = os_fd (open_files s ! nat h);
                offset = current_offset (open_files s ! nat h);
                file_sz = file_size (open_files s ! nat h)
            in if offset \<ge> file_sz then (0, [], s)
               else (let count = clamp_count offset file_sz count0 in
                 case read_loop s d offset count 0 [] of
                   Rd_failed user_buf s1 \<Rightarrow> (-1, user_buf, s1)
                 | Rd_done bytes_read user_buf s1 \<Rightarrow>
                     (s64 bytes_read, user_buf,
                      s1\<lparr>open_files := (open_files s1)[nat h := (open_files s1 ! nat h)
                          \<lparr>current_offset :=
                             s64 (current_offset (open_files s1 ! nat h) + bytes_read)\<rparr>]\<rparr>))))"

subsection \<open>vtpc_write\<close>

definition write_block :: "vtpc_state \<Rightarrow> int \<Rightarrow> int \<Rightarrow> int \<Rightarrow> int \<times> vtpc_state" where
  "write_block s d block_idx to_copy =
     (let cache_idx = find_cache_block s d block_idx in
      if cache_idx = -1 then
        (let (cache_idx, s1) = evict_block s;
             b = cache s1 ! nat cache_idx;
             (buf, os1) =
               (if to_copy < BLOCK_SIZE then
                  (let (r, got, os1) =
                         os_pread (sys s1) d BLOCK_SIZE (s64 (block_idx * BLOCK_SIZE))
                   in (if r = -1 then replicate (nat BLOCK_SIZE) 0 else fill (data b) r got,
                       os1))
                else (data b, sys s1))
         in (cache_idx,
             s1\<lparr>sys := os1,
                cache := (cache s1)[nat cache_idx :=
                  b\<lparr>data := buf, fd := d, block_index := block_idx,
                    dirty := False, frequency := 1, valid := True\<rparr>]\<rparr>))
      else (let b = cache s ! nat cache_idx
            in (cache_idx,
                s\<lparr>cache := (cache s)[nat cache_idx := b\<lparr>frequency := frequency b + 1\<rparr>]\<rparr>)))"

definition patch :: "byte list \<Rightarrow> nat \<Rightarrow> nat \<Rightarrow> byte list \<Rightarrow> byte list" where
  "patch buf pos n src = take pos buf @ take n src @ drop (pos + n) buf"

function write_loop :: "vtpc_state \<Rightarrow> int \<Rightarrow> int \<Rightarrow> int \<Rightarrow> int \<Rightarrow> byte list \<Rightarrow> int \<times> vtpc_state" where
  "write_loop s d offset count bytes_written user_buf =
     (if bytes_written < count then
        (let block_idx = u64 (offset + bytes_written) div BLOCK_SIZE;
             offset_in_block = u64 (offset + bytes_written) mod BLOCK_SIZE;
             to_copy = (if BLOCK_SIZE - offset_in_block > count - bytes_written
                        then count - bytes_written else BLOCK_SIZE - offset_in_block);
             (cache_idx, s1) = write_block s d block_idx to_copy;
             b = cache s1 ! nat cache_idx;
             b1 = b\<lparr>data := patch (data b) (nat offset_in_block) (nat to_copy)
                              (drop (nat bytes_written) user_buf),
                    dirty := True\<rparr>
         in write_loop (s1\<lparr>cache := (cache s1)[nat cache_idx := b1]\<rparr>) d offset count
              (bytes_written + to_copy) user_buf)
      else (bytes_written, s))"
  by pat_completeness auto
termination
  by (relation "measure (\<lambda>(s, d, offset, count, bytes_written, user_buf).
        nat (count - bytes_written))")
     (auto simp: BLOCK_SIZE_def)

definition vtpc_write :: "vtpc_state \<Rightarrow> int \<Rightarrow> byte list \<Rightarrow> int \<Rightarrow> int \<times> vtpc_state" where
  "vtpc_write s h user_buf count =
     (if bad_handle s h then (-1, set_errno EBADF s)
      else (let d = os_fd (open_files s ! nat h);
                offset = current_offset (open_files s ! nat h);
                (bytes_written, s1) = write_loop s d offset count 0 user_buf;
                f = open_files s1 ! nat h;
                f1 = f\<lparr>current_offset := s64 (current_offset f + bytes_written)\<rparr>;
                f2 = (if current_offset f1 > file_size f1
                      then f1\<lparr>file_size := current_offset f1\<rparr> else f1)
            in (s64 bytes_written, s1\<lparr>open_files := (open_files s1)[nat h := f2]\<rparr>)))"

subsection \<open>vtpc_lseek\<close>

definition vtpc_lseek :: "vtpc_state \<Rightarrow> int \<Rightarrow> int \<Rightarrow> int \<Rightarrow> int \<times> vtpc_state" where
  "vtpc_lseek s h offset whence =
     (if bad_handle s h then (-1, set_errno EBADF s)
      else (let f = open_files s ! nat h in
        if whence \<noteq> SEEK_SET \<and> whence \<noteq> SEEK_CUR \<and> whence \<noteq> SEEK_END
        then (-1, set_errno EINVAL s)
        else (let new_offset =
                    (if whence = SEEK_SET then offset
                     else if whence = SEEK_CUR then s64 (current_offset f + offset)
                     else s64 (file_size f + offset))
              in if new_offset < 0 then (-1, set_errno EINVAL s)
                 else (new_offset,
                       s\<lparr>open_files := (open_files s)[nat h :=
                           f\<lparr>current_offset := new_offset\<rparr>]\<rparr>))))"

subsection \<open>Predicates and example states used in the statements\<close>

text \<open>
  \<open>best c k js\<close>: among the slots \<open>js\<close>, slot \<open>k\<close> has the highest access counter and is
  the lowest-indexed slot that has it.
\<close>

definition best :: "CacheBlock list \<Rightarrow> nat \<Rightarrow> nat list \<Rightarrow> bool" where
  "best c k js \<longleftrightarrow> k \<in> set js \<and> (\<forall>j \<in> set js. frequency (c ! j) \<le> frequency (c ! k))
     \<and> (\<forall>j \<in> set js. j < k \<longrightarrow> frequency (c ! j) < frequency (c ! k))"

definition os0 :: os_state where
  "os0 = \<lparr>files = (\<lambda>d. []), fpos = (\<lambda>d. 0), opened = [], faults = [], trace = [],
          errno = 0, uninit = (\<lambda>i. 0)\<rparr>"

text \<open>A pool whose slots are all valid: slot \<open>i\<close> holds block \<open>i\<close> of descriptor 3.\<close>

definition full_block :: "nat \<Rightarrow> CacheBlock" where
  "full_block i = \<lparr>data = replicate (nat BLOCK_SIZE) 0, fd = 3, block_index = int i,
                    dirty = False, frequency = 1, valid = True\<rparr>"

definition full_state :: "os_state \<Rightarrow> vtpc_state" where
  "full_state os =
     \<lparr>cache = map full_block [0..<CACHE_SIZE_BLOCKS],
      cache_initialized = True,
      open_files = (replicate MAX_OPEN_FILES
        \<lparr>os_fd = -1, current_offset = 0, file_size = 0, flags = 0\<rparr>)
        [0 := \<lparr>os_fd = 3, current_offset = 0, file_size = 0, flags = 0\<rparr>],
      sys = os\<rparr>"

text \<open>
  \<open>holds c d b i\<close>: slot \<open>i\<close> is valid and is block \<open>b\<close> of descriptor \<open>d\<close>.
  \<open>pool_shape\<close>: the pool has its \<^verbatim>\<open>CACHE_SIZE_BLOCKS\<close> slots. \<open>pool_unique\<close>: no two
  slots are valid for the same descriptor and block index.
\<close>

definition holds :: "CacheBlock list \<Rightarrow> int \<Rightarrow> int \<Rightarrow> nat \<Rightarrow> bool" where
  "holds c d b i \<longleftrightarrow> valid (c ! i) \<and> fd (c ! i) = d \<and> block_index (c ! i) = b"

definition pool_shape :: "vtpc_state \<Rightarrow> bool" where
  "pool_shape s \<longleftrightarrow> length (cache s) = CACHE_SIZE_BLOCKS"

definition pool_unique :: "vtpc_state \<Rightarrow> bool" where
  "pool_unique s \<longleftrightarrow>
     (\<forall>i<CACHE_SIZE_BLOCKS. \<forall>j<CACHE_SIZE_BLOCKS.
        valid (cache s ! i) \<and> valid (cache s ! j) \<and> fd (cache s ! i) = fd (cache s ! j)
        \<and> block_index (cache s ! i) = block_index (cache s ! j) \<longrightarrow> i = j)"

fun rd_state :: "rd \<Rightarrow> vtpc_state" where
  "rd_state (Rd_failed user_buf s) = s"
| "rd_state (Rd_done bytes_read user_buf s) = s"

text \<open>The length of the round of the loops that starts with \<open>n\<close> bytes done.\<close>

definition chunk :: "int \<Rightarrow> int \<Rightarrow> int \<Rightarrow> int" where
  "chunk offset count n =
     (if BLOCK_SIZE - u64 (offset + n) mod BLOCK_SIZE > count - n then count - n
      else BLOCK_SIZE - u64 (offset + n) mod BLOCK_SIZE)"

text \<open>
  \<open>shrinks c c'\<close>: going from pool \<open>c\<close> to pool \<open>c'\<close>, no slot became valid and no valid
  slot changed its descriptor or block index.
\<close>

definition shrinks :: "CacheBlock list \<Rightarrow> CacheBlock list \<Rightarrow> bool" where
  "shrinks c c' \<longleftrightarrow> length c' = length c
     \<and> (\<forall>i. valid (c' ! i) \<longrightarrow> valid (c ! i) \<and> fd (c' ! i) = fd (c ! i)
            \<and> block_index (c' ! i) = block_index (c ! i))"

text \<open>\<open>writeback_call s d i\<close>: the pwrite with which vtpc_fsync writes slot \<open>i\<close> back.\<close>

definition writeback_call :: "vtpc_state \<Rightarrow> int \<Rightarrow> nat \<Rightarrow> syscall" where
  "writeback_call s d i =
     Sys_pwrite d (take (nat BLOCK_SIZE) (data (cache s ! i)))
       (s64 (block_index (cache s ! i) * BLOCK_SIZE))"

text \<open>
  An initialised pool with one dirty block: slot 0 holds block 0 of descriptor 3, every
  other slot is empty; handle 0 is open on descriptor 3.
\<close>

definition os3 :: os_state where
  "os3 = os0\<lparr>opened := [3]\<rparr>"

definition blank_block :: CacheBlock where
  "blank_block = \<lparr>data = replicate (nat BLOCK_SIZE) 0, fd = -1, block_index = 0,
                   dirty = False, frequency = 0, valid = False\<rparr>"

definition closed_file :: FileContext where
  "closed_file = \<lparr>os_fd = -1, current_offset = 0, file_size = 0, flags = 0\<rparr>"

definition one_dirty_state :: "os_state \<Rightarrow> vtpc_state" where
  "one_dirty_state os =
     \<lparr>cache = (replicate CACHE_SIZE_BLOCKS blank_block)
        [0 := \<lparr>data = replicate (nat BLOCK_SIZE) 7, fd = 3, block_index = 0,
               dirty = True, frequency = 1, valid = True\<rparr>],
      cache_initialized = True,
      open_files = (replicate MAX_OPEN_FILES closed_file)
        [0 := \<lparr>os_fd = 3, current_offset = BLOCK_SIZE, file_size = BLOCK_SIZE, flags = 2\<rparr>],
      sys = os\<rparr>"

text \<open>
  A pool in which every slot is valid and dirty: slot \<open>i\<close> holds block \<open>i\<close> of descriptor 3.
  Handle 0 is open on descriptor 3 with its cursor at the first block that is not cached.
\<close>

definition busy_block :: "nat \<Rightarrow> CacheBlock" where
  "busy_block i = \<lparr>data = replicate (nat BLOCK_SIZE) 7, fd = 3, block_index = int i,
                    dirty = True, frequency = 1, valid = True\<rparr>"

definition busy_state :: "os_state \<Rightarrow> vtpc_state" where
  "busy_state os =
     \<lparr>cache = map busy_block [0..<CACHE_SIZE_BLOCKS],
      cache_initialized = True,
      open_files = (replicate MAX_OPEN_FILES closed_file)
        [0 := \<lparr>os_fd = 3, current_offset = int CACHE_SIZE_BLOCKS * BLOCK_SIZE,
               file_size = int CACHE_SIZE_BLOCKS * BLOCK_SIZE + BLOCK_SIZE, flags = 2\<rparr>],
      sys = os\<rparr>"

text \<open>
  An initialised, empty pool; handle 0 is open on descriptor 3 with cursor 1 and tracked
  size 2. In \<open>os_ab\<close> the file behind every descriptor holds the two bytes 65, 66.
\<close>

definition os_ab :: os_state where
  "os_ab = os3\<lparr>files := (\<lambda>d. [65, 66])\<rparr>"

definition small_state :: "os_state \<Rightarrow> vtpc_state" where
  "small_state os =
     \<lparr>cache = replicate CACHE_SIZE_BLOCKS blank_block,
      cache_initialized = True,
      open_files = (replicate MAX_OPEN_FILES closed_file)
        [0 := \<lparr>os_fd = 3, current_offset = 1, file_size = 2, flags = 2\<rparr>],
      sys = os\<rparr>"

text \<open>
  The contents of a descriptor as seen through the cache. \<open>byte_at f n\<close> is byte \<open>n\<close> of the
  file \<open>f\<close>, zero past its end (what a short pread leaves after the zero fill);
  \<open>disk_block f b\<close> is block \<open>b\<close> of the file, zero-padded; \<open>view s d n\<close> is byte \<open>n\<close> of
  descriptor \<open>d\<close> as the library sees it: the cached copy when the block is in the pool,
  the file otherwise.
\<close>

definition byte_at :: "byte list \<Rightarrow> int \<Rightarrow> byte" where
  "byte_at f n = (if 0 \<le> n \<and> n < int (length f) then f ! nat n else 0)"

definition disk_block :: "byte list \<Rightarrow> int \<Rightarrow> byte list" where
  "disk_block f b = map (\<lambda>k. byte_at f (b * BLOCK_SIZE + int k)) [0..<nat BLOCK_SIZE]"

definition view :: "vtpc_state \<Rightarrow> int \<Rightarrow> int \<Rightarrow> byte" where
  "view s d n =
     (let i = find_cache_block s d (n div BLOCK_SIZE) in
      if i = -1 then byte_at (files (sys s) d) n
      else data (cache s ! nat i) ! nat (n mod BLOCK_SIZE))"

text \<open>
  \<open>healthy os d\<close>: no failure or short transfer is scheduled and descriptor \<open>d\<close> is open.
  \<open>coherent s d\<close>: the pool is well formed, the system is healthy for \<open>d\<close>, every buffer has
  \<^verbatim>\<open>BLOCK_SIZE\<close> bytes, and every valid slot of \<open>d\<close> has a block index whose byte range fits
  \<^verbatim>\<open>off_t\<close> and, when clean, holds what the file holds.
\<close>

definition healthy :: "os_state \<Rightarrow> int \<Rightarrow> bool" where
  "healthy os d \<longleftrightarrow> faults os = [] \<and> d \<in> set (opened os)"

definition coherent :: "vtpc_state \<Rightarrow> int \<Rightarrow> bool" where
  "coherent s d \<longleftrightarrow> pool_shape s \<and> pool_unique s \<and> healthy (sys s) d
     \<and> (\<forall>i<CACHE_SIZE_BLOCKS. length (data (cache s ! i)) = nat BLOCK_SIZE)
     \<and> (\<forall>i<CACHE_SIZE_BLOCKS. valid (cache s ! i) \<and> fd (cache s ! i) = d \<longrightarrow>
           0 \<le> block_index (cache s ! i)
           \<and> block_index (cache s ! i) * BLOCK_SIZE + BLOCK_SIZE \<le> 2 ^ 63
           \<and> (\<not> dirty (cache s ! i) \<longrightarrow>
                data (cache s ! i) = disk_block (files (sys s) d) (block_index (cache s ! i))))"







section \<open>Properties\<close>

subsection \<open>The eviction scan\<close>

lemma CSB_pos: "0 < CACHE_SIZE_BLOCKS"
  by (simp add: CACHE_SIZE_BLOCKS_def)

lemma upt_CSB: "[0..<CACHE_SIZE_BLOCKS] = 0 # [Suc 0..<CACHE_SIZE_BLOCKS]"
  by (rule upt_conv_Cons[OF CSB_pos])

lemma evict_scan_invalid:
  "find (\<lambda>i. \<not> valid (c ! i)) js = Some i \<Longrightarrow> evict_scan c cand mf js = Returned (int i)"
  by (induction js arbitrary: cand mf) (auto split: if_splits)

text \<open>
  The loop invariant of the scan over valid slots: the candidate is the best slot of the
  part \<open>ps\<close> already visited, and \<open>max_freq\<close> is its counter.
\<close>

lemma evict_scan_cand:
  assumes "\<forall>i \<in> set js. valid (c ! i)" "sorted_wrt (<) (ps @ js)" "best c k ps"
  shows "\<exists>k'. evict_scan c (int k) (frequency (c ! k)) js = Scanned (int k')
           \<and> best c k' (ps @ js)"
  using assms
proof (induction js arbitrary: ps k)
  case Nil
  then show ?case by simp
next
  case (Cons i js)
  have v: "\<forall>i \<in> set js. valid (c ! i)" and vi: "valid (c ! i)"
    using Cons.prems(1) by auto
  have srt: "sorted_wrt (<) ((ps @ [i]) @ js)"
    using Cons.prems(2) by simp
  have ki: "k < i"
    using Cons.prems(2,3) by (auto simp: best_def sorted_wrt_append)
  show ?case
  proof (cases "frequency (c ! i) > frequency (c ! k)")
    case True
    have "best c i (ps @ [i])"
      using True Cons.prems(3) by (auto simp: best_def)
    from Cons.IH[OF v srt this] True vi show ?thesis by auto
  next
    case False
    have "best c k (ps @ [i])"
      using False Cons.prems(3) ki by (auto simp: best_def)
    from Cons.IH[OF v srt this] False vi show ?thesis by auto
  qed
qed

lemma evict_scan_full:
  assumes "\<forall>i \<in> set (i0 # js). valid (c ! i)" "sorted_wrt (<) (i0 # js)"
  shows "\<exists>k. evict_scan c (-1) mf (i0 # js) = Scanned (int k) \<and> best c k (i0 # js)"
proof -
  have b: "best c i0 [i0]"
    by (simp add: best_def)
  have "\<forall>i \<in> set js. valid (c ! i)"
    using assms(1) by simp
  from evict_scan_cand[OF this _ b] assms(2) assms(1) show ?thesis by auto
qed

lemma find_first_invalid:
  assumes "i < n" "\<not> valid (c ! i)" "\<forall>j<i. valid (c ! j)"
  shows "find (\<lambda>i. \<not> valid (c ! i)) [0..<n] = Some i"
  using assms by (auto simp: find_Some_iff intro!: exI[of _ i])

lemma evict_scan_first_invalid:
  assumes "i < CACHE_SIZE_BLOCKS" "\<not> valid (c ! i)" "\<forall>j<i. valid (c ! j)"
  shows "evict_scan c (-1) 0 [0..<CACHE_SIZE_BLOCKS] = Returned (int i)"
  by (rule evict_scan_invalid[OF find_first_invalid[OF assms]])

lemma evict_scan_all_valid:
  assumes "\<forall>i<CACHE_SIZE_BLOCKS. valid (c ! i)"
  shows "\<exists>k. evict_scan c (-1) 0 [0..<CACHE_SIZE_BLOCKS] = Scanned (int k)
           \<and> best c k [0..<CACHE_SIZE_BLOCKS]"
proof -
  have 1: "\<forall>i \<in> set (0 # [Suc 0..<CACHE_SIZE_BLOCKS]). valid (c ! i)"
    using assms CSB_pos by (metis upt_CSB atLeastLessThan_iff set_upt)
  have 2: "sorted_wrt (<) (0 # [Suc 0..<CACHE_SIZE_BLOCKS])"
    using sorted_wrt_upt[of 0 CACHE_SIZE_BLOCKS] by (simp only: upt_CSB)
  from evict_scan_full[OF 1 2] show ?thesis by (simp only: upt_CSB)
qed

lemma best_upt:
  "best c k [0..<n] \<longleftrightarrow> k < n \<and> (\<forall>j<n. frequency (c ! j) \<le> frequency (c ! k))
     \<and> (\<forall>j<k. frequency (c ! j) < frequency (c ! k))"
  by (auto simp: best_def)

lemma evict_scan_cases:
  "(\<exists>i<CACHE_SIZE_BLOCKS. evict_scan c (-1) 0 [0..<CACHE_SIZE_BLOCKS] = Returned (int i)
       \<and> \<not> valid (c ! i) \<and> (\<forall>j<i. valid (c ! j)))
   \<or> (\<exists>k<CACHE_SIZE_BLOCKS. evict_scan c (-1) 0 [0..<CACHE_SIZE_BLOCKS] = Scanned (int k)
       \<and> (\<forall>i<CACHE_SIZE_BLOCKS. valid (c ! i)) \<and> best c k [0..<CACHE_SIZE_BLOCKS])"
proof (cases "\<forall>i<CACHE_SIZE_BLOCKS. valid (c ! i)")
  case True
  from evict_scan_all_valid[OF True] True show ?thesis by (auto simp: best_upt)
next
  case False
  define i where "i = (LEAST i. i < CACHE_SIZE_BLOCKS \<and> \<not> valid (c ! i))"
  from False have ex: "\<exists>i. i < CACHE_SIZE_BLOCKS \<and> \<not> valid (c ! i)"
    by auto
  have a: "i < CACHE_SIZE_BLOCKS \<and> \<not> valid (c ! i)"
    unfolding i_def using ex by (rule LeastI_ex)
  have b: "\<forall>j<i. valid (c ! j)"
  proof (intro allI impI)
    fix j assume "j < i"
    then have "\<not> (j < CACHE_SIZE_BLOCKS \<and> \<not> valid (c ! j))"
      unfolding i_def by (rule not_less_Least)
    with \<open>j < i\<close> a show "valid (c ! j)" by auto
  qed
  from evict_scan_first_invalid[OF a[THEN conjunct1] a[THEN conjunct2] b] a b
  show ?thesis by blast
qed

lemma static_state_invalid: "i < CACHE_SIZE_BLOCKS \<Longrightarrow> \<not> valid (cache (static_state os) ! i)"
  by (simp add: static_state_def)

lemma full_state_nth: "i < CACHE_SIZE_BLOCKS \<Longrightarrow> cache (full_state os) ! i = full_block i"
  by (simp add: full_state_def del: upt_rec_numeral)

text \<open>
  C5. On a miss the eviction selection returns the first slot that is not valid, with the
  state untouched (so nothing is written back); when every slot is valid it selects a slot
  whose access counter is the highest of the pool, and the lowest-indexed such slot.
\<close>

theorem evict_selection:
  "(\<forall>i. i < CACHE_SIZE_BLOCKS \<and> \<not> valid (cache s ! i) \<and> (\<forall>j<i. valid (cache s ! j))
        \<longrightarrow> evict_block s = (int i, s))
   \<and> ((\<forall>i<CACHE_SIZE_BLOCKS. valid (cache s ! i)) \<longrightarrow>
        (\<exists>k<CACHE_SIZE_BLOCKS. fst (evict_block s) = int k
           \<and> (\<forall>j<CACHE_SIZE_BLOCKS. frequency (cache s ! j) \<le> frequency (cache s ! k))
           \<and> (\<forall>j<k. frequency (cache s ! j) < frequency (cache s ! k))))"
proof (intro conjI allI impI)
  fix i
  assume "i < CACHE_SIZE_BLOCKS \<and> \<not> valid (cache s ! i) \<and> (\<forall>j<i. valid (cache s ! j))"
  then have "evict_scan (cache s) (-1) 0 [0..<CACHE_SIZE_BLOCKS] = Returned (int i)"
    using evict_scan_first_invalid by blast
  then show "evict_block s = (int i, s)"
    by (simp add: evict_block_def)
next
  assume "\<forall>i<CACHE_SIZE_BLOCKS. valid (cache s ! i)"
  from evict_scan_all_valid[OF this] obtain k where
    k: "evict_scan (cache s) (-1) 0 [0..<CACHE_SIZE_BLOCKS] = Scanned (int k)"
       "best (cache s) k [0..<CACHE_SIZE_BLOCKS]" by blast
  have "fst (evict_block s) = int k"
    using k(1) by (simp add: evict_block_def Let_def)
  with k(2) show "\<exists>k<CACHE_SIZE_BLOCKS. fst (evict_block s) = int k
           \<and> (\<forall>j<CACHE_SIZE_BLOCKS. frequency (cache s ! j) \<le> frequency (cache s ! k))
           \<and> (\<forall>j<k. frequency (cache s ! j) < frequency (cache s ! k))"
    by (auto simp: best_upt)
qed

theorem evict_selection_witness:
  "evict_block (static_state os0) = (0, static_state os0)
   \<and> fst (evict_block (full_state os0)) = 0"
proof -
  have a: "0 < CACHE_SIZE_BLOCKS \<and> \<not> valid (cache (static_state os0) ! 0)
           \<and> (\<forall>j<0::nat. valid (cache (static_state os0) ! j))"
    using CSB_pos static_state_invalid[OF CSB_pos] by simp
  have 1: "evict_block (static_state os0) = (int 0, static_state os0)"
    using evict_selection[of "static_state os0"] a by blast
  have v: "\<forall>i<CACHE_SIZE_BLOCKS. valid (cache (full_state os0) ! i)"
    by (simp add: full_state_nth full_block_def)
  with evict_selection[of "full_state os0"]
  obtain k where k: "k < CACHE_SIZE_BLOCKS" "fst (evict_block (full_state os0)) = int k"
    "\<forall>j<k. frequency (cache (full_state os0) ! j) < frequency (cache (full_state os0) ! k)"
    by blast
  have "k = 0"
  proof (rule ccontr)
    assume "k \<noteq> 0"
    then have "0 < k" by simp
    with k(3) have "frequency (cache (full_state os0) ! 0) < frequency (cache (full_state os0) ! k)"
      by blast
    then show False
      using k(1) CSB_pos by (simp add: full_state_nth full_block_def)
  qed
  with k(2) 1 show ?thesis by simp
qed

text \<open>
  C9. evict_block returns an index of the pool. When some slot is not valid it is the
  first such slot. The scan never ends with the candidate still at -1 (the pool has at
  least one slot), so the branch after the candidate check that returns 0 is never taken.
\<close>

theorem evict_block_range:
  "0 \<le> fst (evict_block s) \<and> fst (evict_block s) < int CACHE_SIZE_BLOCKS
   \<and> evict_scan (cache s) (-1) 0 [0..<CACHE_SIZE_BLOCKS] \<noteq> Scanned (-1)
   \<and> (\<forall>i. i < CACHE_SIZE_BLOCKS \<and> \<not> valid (cache s ! i) \<and> (\<forall>j<i. valid (cache s ! j))
        \<longrightarrow> fst (evict_block s) = int i)"
proof -
  have 4: "\<forall>i. i < CACHE_SIZE_BLOCKS \<and> \<not> valid (cache s ! i) \<and> (\<forall>j<i. valid (cache s ! j))
        \<longrightarrow> fst (evict_block s) = int i"
    using evict_scan_first_invalid[of _ "cache s"] by (auto simp: evict_block_def)
  from evict_scan_cases[of "cache s"] have
    "0 \<le> fst (evict_block s) \<and> fst (evict_block s) < int CACHE_SIZE_BLOCKS
      \<and> evict_scan (cache s) (-1) 0 [0..<CACHE_SIZE_BLOCKS] \<noteq> Scanned (-1)"
    by (auto simp: evict_block_def Let_def)
  with 4 show ?thesis by blast
qed

theorem evict_block_range_witness:
  "0 \<le> fst (evict_block (static_state os0))
   \<and> fst (evict_block (static_state os0)) < int CACHE_SIZE_BLOCKS
   \<and> evict_scan (cache (static_state os0)) (-1) 0 [0..<CACHE_SIZE_BLOCKS] \<noteq> Scanned (-1)
   \<and> fst (evict_block (static_state os0)) = 0"
proof -
  have a: "0 < CACHE_SIZE_BLOCKS \<and> \<not> valid (cache (static_state os0) ! 0)
           \<and> (\<forall>j<0::nat. valid (cache (static_state os0) ! j))"
    using CSB_pos static_state_invalid[OF CSB_pos] by simp
  have r: "0 \<le> fst (evict_block (static_state os0))
   \<and> fst (evict_block (static_state os0)) < int CACHE_SIZE_BLOCKS
   \<and> evict_scan (cache (static_state os0)) (-1) 0 [0..<CACHE_SIZE_BLOCKS] \<noteq> Scanned (-1)
   \<and> (\<forall>i. i < CACHE_SIZE_BLOCKS \<and> \<not> valid (cache (static_state os0) ! i)
          \<and> (\<forall>j<i. valid (cache (static_state os0) ! j))
        \<longrightarrow> fst (evict_block (static_state os0)) = int i)"
    by (rule evict_block_range)
  from r have "fst (evict_block (static_state os0)) = int 0"
    using a by blast
  with r show ?thesis by simp
qed

subsection \<open>vtpc_lseek\<close>

lemma MOF_gt: "5 < MAX_OPEN_FILES" "0 < MAX_OPEN_FILES"
  by (simp_all add: MAX_OPEN_FILES_def)

lemma full_state_handle0:
  "open_files (full_state os) ! 0 = \<lparr>os_fd = 3, current_offset = 0, file_size = 0, flags = 0\<rparr>"
  using MOF_gt(2) by (simp add: full_state_def del: upt_rec_numeral)

lemma full_state_handle5:
  "open_files (full_state os) ! 5 = \<lparr>os_fd = -1, current_offset = 0, file_size = 0, flags = 0\<rparr>"
  using MOF_gt(1) by (simp add: full_state_def del: upt_rec_numeral)

lemma full_state_bad_handle: "bad_handle (full_state os) 5" "\<not> bad_handle (full_state os) 0"
  using full_state_handle5[of os] full_state_handle0[of os] MOF_gt
  by (simp_all add: bad_handle_def)

text \<open>
  C10. Whenever vtpc_lseek returns -1 the pool, the table of open files (so the cursor and
  the tracked size of every handle) and the initialisation flag are unchanged, and so is the
  system state but for errno. It returns -1 for a bad handle (EBADF), for a whence that is
  none of SEEK_SET, SEEK_CUR, SEEK_END (EINVAL) and for a negative resulting offset
  (EINVAL). Any other result is the new, non-negative cursor, and storing it in the
  handle is the only change.
\<close>

theorem lseek_failure_frame:
  "(fst (vtpc_lseek s h off wh) = -1 \<longrightarrow>
      cache (snd (vtpc_lseek s h off wh)) = cache s
      \<and> open_files (snd (vtpc_lseek s h off wh)) = open_files s
      \<and> cache_initialized (snd (vtpc_lseek s h off wh)) = cache_initialized s
      \<and> sys (snd (vtpc_lseek s h off wh))
          = (sys s)\<lparr>errno := errno (sys (snd (vtpc_lseek s h off wh)))\<rparr>)
   \<and> (bad_handle s h \<longrightarrow> vtpc_lseek s h off wh = (-1, set_errno EBADF s))
   \<and> (\<not> bad_handle s h \<and> wh \<noteq> SEEK_SET \<and> wh \<noteq> SEEK_CUR \<and> wh \<noteq> SEEK_END \<longrightarrow>
        vtpc_lseek s h off wh = (-1, set_errno EINVAL s))
   \<and> (\<not> bad_handle s h \<and> wh = SEEK_SET \<and> off < 0 \<longrightarrow>
        vtpc_lseek s h off wh = (-1, set_errno EINVAL s))
   \<and> (\<not> bad_handle s h \<and> wh = SEEK_CUR
        \<and> s64 (current_offset (open_files s ! nat h) + off) < 0 \<longrightarrow>
        vtpc_lseek s h off wh = (-1, set_errno EINVAL s))
   \<and> (\<not> bad_handle s h \<and> wh = SEEK_END
        \<and> s64 (file_size (open_files s ! nat h) + off) < 0 \<longrightarrow>
        vtpc_lseek s h off wh = (-1, set_errno EINVAL s))
   \<and> (fst (vtpc_lseek s h off wh) \<noteq> -1 \<longrightarrow>
        0 \<le> fst (vtpc_lseek s h off wh)
        \<and> snd (vtpc_lseek s h off wh) = s\<lparr>open_files := (open_files s)[nat h :=
             (open_files s ! nat h)\<lparr>current_offset := fst (vtpc_lseek s h off wh)\<rparr>]\<rparr>)"
  by (simp add: vtpc_lseek_def set_errno_def Let_def SEEK_SET_def SEEK_CUR_def SEEK_END_def)

theorem lseek_failure_frame_witness:
  "vtpc_lseek (full_state os0) 5 0 SEEK_SET = (-1, set_errno EBADF (full_state os0))
   \<and> cache (snd (vtpc_lseek (full_state os0) 5 0 SEEK_SET)) = cache (full_state os0)
   \<and> open_files (snd (vtpc_lseek (full_state os0) 5 0 SEEK_SET)) = open_files (full_state os0)
   \<and> vtpc_lseek (full_state os0) 0 0 7 = (-1, set_errno EINVAL (full_state os0))
   \<and> vtpc_lseek (full_state os0) 0 (-1) SEEK_SET = (-1, set_errno EINVAL (full_state os0))
   \<and> vtpc_lseek (full_state os0) 0 (-1) SEEK_CUR = (-1, set_errno EINVAL (full_state os0))
   \<and> vtpc_lseek (full_state os0) 0 (-1) SEEK_END = (-1, set_errno EINVAL (full_state os0))
   \<and> fst (vtpc_lseek (full_state os0) 0 8 SEEK_SET) = 8
   \<and> current_offset (open_files (snd (vtpc_lseek (full_state os0) 0 8 SEEK_SET)) ! 0) = 8"
proof -
  note bh = full_state_bad_handle[of os0]
  have w: "(7::int) \<noteq> SEEK_SET \<and> (7::int) \<noteq> SEEK_CUR \<and> (7::int) \<noteq> SEEK_END"
    by (simp add: SEEK_SET_def SEEK_CUR_def SEEK_END_def)
  have n1: "s64 (current_offset (open_files (full_state os0) ! nat 0) + (-1)) < 0"
       "s64 (file_size (open_files (full_state os0) ! nat 0) + (-1)) < 0"
    by (simp_all add: full_state_handle0 s64_def)
  have a: "vtpc_lseek (full_state os0) 5 0 SEEK_SET = (-1, set_errno EBADF (full_state os0))"
    using lseek_failure_frame[of "full_state os0" 5 0 SEEK_SET] bh(1) by blast
  have b: "cache (snd (vtpc_lseek (full_state os0) 5 0 SEEK_SET)) = cache (full_state os0)
     \<and> open_files (snd (vtpc_lseek (full_state os0) 5 0 SEEK_SET)) = open_files (full_state os0)"
    using lseek_failure_frame[of "full_state os0" 5 0 SEEK_SET] a by simp
  have c: "vtpc_lseek (full_state os0) 0 0 7 = (-1, set_errno EINVAL (full_state os0))"
    using lseek_failure_frame[of "full_state os0" 0 0 7] bh(2) w by blast
  have d: "vtpc_lseek (full_state os0) 0 (-1) SEEK_SET = (-1, set_errno EINVAL (full_state os0))"
    using lseek_failure_frame[of "full_state os0" 0 "-1" SEEK_SET] bh(2) by simp
  have e: "vtpc_lseek (full_state os0) 0 (-1) SEEK_CUR = (-1, set_errno EINVAL (full_state os0))"
    using lseek_failure_frame[of "full_state os0" 0 "-1" SEEK_CUR] bh(2) n1(1) by blast
  have f: "vtpc_lseek (full_state os0) 0 (-1) SEEK_END = (-1, set_errno EINVAL (full_state os0))"
    using lseek_failure_frame[of "full_state os0" 0 "-1" SEEK_END] bh(2) n1(2) by blast
  have g0: "fst (vtpc_lseek (full_state os0) 0 8 SEEK_SET) = 8"
    using bh(2) by (simp add: vtpc_lseek_def Let_def)
  have g: "current_offset (open_files (snd (vtpc_lseek (full_state os0) 0 8 SEEK_SET)) ! 0) = 8"
    using lseek_failure_frame[of "full_state os0" 0 8 SEEK_SET] g0 MOF_gt(2)
    by (simp add: full_state_def del: upt_rec_numeral)
  from a b c d e f g0 g show ?thesis by blast
qed

subsection \<open>Lookup\<close>

lemma find_loop_none:
  "\<forall>i \<in> set js. \<not> holds c d b i \<Longrightarrow> find_loop c d b js = -1"
  by (induction js) (auto simp: holds_def)

lemma find_loop_found:
  "find_loop c d b js \<noteq> -1 \<Longrightarrow>
     \<exists>i \<in> set js. find_loop c d b js = int i \<and> holds c d b i"
  by (induction js) (auto simp: holds_def split: if_splits)

lemma find_loop_neg:
  "find_loop c d b js = -1 \<Longrightarrow> \<forall>i \<in> set js. \<not> holds c d b i"
  by (induction js) (auto simp: holds_def split: if_splits)

lemma find_miss_iff:
  "find_cache_block s d b = -1 \<longleftrightarrow> (\<forall>i<CACHE_SIZE_BLOCKS. \<not> holds (cache s) d b i)"
  unfolding find_cache_block_def
  using find_loop_none[of "[0..<CACHE_SIZE_BLOCKS]" "cache s" d b]
        find_loop_neg[of "cache s" d b "[0..<CACHE_SIZE_BLOCKS]"]
  by auto

lemma find_hit:
  assumes "find_cache_block s d b \<noteq> -1"
  obtains i where "i < CACHE_SIZE_BLOCKS" "find_cache_block s d b = int i"
    "holds (cache s) d b i"
  using find_loop_found[of "cache s" d b "[0..<CACHE_SIZE_BLOCKS]"] assms
  unfolding find_cache_block_def by auto

subsection \<open>What eviction changes\<close>

lemma evict_writeback_frame:
  "cache (evict_writeback s b) = cache s \<and> open_files (evict_writeback s b) = open_files s
   \<and> cache_initialized (evict_writeback s b) = cache_initialized s"
  by (simp add: evict_writeback_def Let_def split: prod.splits)

lemma evict_block_effect:
  assumes "pool_shape s"
  obtains idx where "idx < CACHE_SIZE_BLOCKS" "fst (evict_block s) = int idx"
    "\<not> valid (cache (snd (evict_block s)) ! idx)"
    "data (cache (snd (evict_block s)) ! idx) = data (cache s ! idx)"
    "\<forall>j. j \<noteq> idx \<longrightarrow> cache (snd (evict_block s)) ! j = cache s ! j"
    "pool_shape (snd (evict_block s))"
    "open_files (snd (evict_block s)) = open_files s"
    "cache_initialized (snd (evict_block s)) = cache_initialized s"
proof -
  from evict_scan_cases[of "cache s"] consider
    (inv) i where "i < CACHE_SIZE_BLOCKS"
      "evict_scan (cache s) (-1) 0 [0..<CACHE_SIZE_BLOCKS] = Returned (int i)"
      "\<not> valid (cache s ! i)"
  | (cand) k where "k < CACHE_SIZE_BLOCKS"
      "evict_scan (cache s) (-1) 0 [0..<CACHE_SIZE_BLOCKS] = Scanned (int k)"
    by blast
  then show ?thesis
  proof cases
    case inv
    then have "evict_block s = (int i, s)" by (simp add: evict_block_def)
    with inv assms that[of i] show ?thesis by simp
  next
    case cand
    let ?s1 = "if dirty (cache s ! k) then evict_writeback s (cache s ! k) else s"
    have e: "evict_block s = (int k, ?s1\<lparr>cache := (cache ?s1)[k :=
               (cache s ! k)\<lparr>valid := False, dirty := False, frequency := 0\<rparr>]\<rparr>)"
      using cand(2) by (simp add: evict_block_def Let_def)
    have c1: "cache ?s1 = cache s" "open_files ?s1 = open_files s"
      "cache_initialized ?s1 = cache_initialized s"
      using evict_writeback_frame by auto
    have kl: "k < length (cache s)" using cand(1) assms by (simp add: pool_shape_def)
    show ?thesis
      using that[of k] cand(1) kl assms unfolding e
      by (simp add: c1 pool_shape_def)
  qed
qed

subsection \<open>The pool invariant\<close>

lemma pool_unique_shrink:
  assumes "pool_unique s"
    "\<forall>i<CACHE_SIZE_BLOCKS. valid (cache s' ! i) \<longrightarrow> valid (cache s ! i)
        \<and> fd (cache s' ! i) = fd (cache s ! i)
        \<and> block_index (cache s' ! i) = block_index (cache s ! i)"
  shows "pool_unique s'"
  unfolding pool_unique_def
proof (intro allI impI)
  fix i j
  assume ij: "i < CACHE_SIZE_BLOCKS" "j < CACHE_SIZE_BLOCKS"
    and h: "valid (cache s' ! i) \<and> valid (cache s' ! j) \<and> fd (cache s' ! i) = fd (cache s' ! j)
      \<and> block_index (cache s' ! i) = block_index (cache s' ! j)"
  from assms(2) ij h have "valid (cache s ! i) \<and> valid (cache s ! j)
      \<and> fd (cache s ! i) = fd (cache s ! j)
      \<and> block_index (cache s ! i) = block_index (cache s ! j)"
    by metis
  with assms(1) ij show "i = j" unfolding pool_unique_def by blast
qed

lemma pool_unique_populate:
  assumes u: "pool_unique s" and sh: "pool_shape s" and idx: "idx < CACHE_SIZE_BLOCKS"
    and miss: "\<forall>i<CACHE_SIZE_BLOCKS. \<not> holds (cache s) d b i"
    and c: "cache s' = (cache s)[idx := blk]" and blk: "fd blk = d" "block_index blk = b"
  shows "pool_unique s'"
  unfolding pool_unique_def
proof (intro allI impI)
  fix i j
  assume ij: "i < CACHE_SIZE_BLOCKS" "j < CACHE_SIZE_BLOCKS"
    and h: "valid (cache s' ! i) \<and> valid (cache s' ! j) \<and> fd (cache s' ! i) = fd (cache s' ! j)
      \<and> block_index (cache s' ! i) = block_index (cache s' ! j)"
  have len: "idx < length (cache s)" using sh idx by (simp add: pool_shape_def)
  have at: "cache s' ! idx = blk" using c len by simp
  have other: "\<And>k. k \<noteq> idx \<Longrightarrow> cache s' ! k = cache s ! k" using c by simp
  show "i = j"
  proof (cases "i = idx")
    case True
    show ?thesis
    proof (cases "j = idx")
      case True with \<open>i = idx\<close> show ?thesis by simp
    next
      case False
      with h True at other[of j] blk have "holds (cache s) d b j"
        by (simp add: holds_def)
      with miss ij show ?thesis by blast
    qed
  next
    case False
    show ?thesis
    proof (cases "j = idx")
      case True
      with h False at other[of i] blk have "holds (cache s) d b i"
        by (simp add: holds_def)
      with miss ij show ?thesis by blast
    next
      case jf: False
      with h False other[of i] other[of j] u ij show ?thesis
        unfolding pool_unique_def by simp
    qed
  qed
qed

lemma evict_block_inv:
  assumes "pool_shape s" "pool_unique s"
  shows "pool_shape (snd (evict_block s)) \<and> pool_unique (snd (evict_block s))"
proof -
  from evict_block_effect[OF assms(1)] obtain idx where
    e: "idx < CACHE_SIZE_BLOCKS" "\<not> valid (cache (snd (evict_block s)) ! idx)"
    "\<forall>j. j \<noteq> idx \<longrightarrow> cache (snd (evict_block s)) ! j = cache s ! j"
    "pool_shape (snd (evict_block s))" by metis
  have "pool_unique (snd (evict_block s))"
    by (rule pool_unique_shrink[OF assms(2)]) (use e in metis)
  with e(4) show ?thesis by simp
qed

lemma evict_block_miss:
  assumes "pool_shape s" "\<forall>i<CACHE_SIZE_BLOCKS. \<not> holds (cache s) d b i"
  shows "\<forall>i<CACHE_SIZE_BLOCKS. \<not> holds (cache (snd (evict_block s))) d b i"
proof -
  from evict_block_effect[OF assms(1)] obtain idx where
    e: "idx < CACHE_SIZE_BLOCKS" "\<not> valid (cache (snd (evict_block s)) ! idx)"
    "\<forall>j. j \<noteq> idx \<longrightarrow> cache (snd (evict_block s)) ! j = cache s ! j" by metis
  show ?thesis
  proof (intro allI impI)
    fix i assume "i < CACHE_SIZE_BLOCKS"
    with assms(2) e show "\<not> holds (cache (snd (evict_block s))) d b i"
      by (cases "i = idx") (auto simp: holds_def)
  qed
qed

lemma read_block_inv:
  assumes "pool_shape s" "pool_unique s"
  shows "pool_shape (snd (snd (read_block s d b))) \<and> pool_unique (snd (snd (read_block s d b)))"
proof (cases "find_cache_block s d b = -1")
  case True
  obtain idx s1 where ev: "evict_block s = (idx, s1)" by fastforce
  obtain r got os1 where pr: "os_pread (sys s1) d BLOCK_SIZE (s64 (b * BLOCK_SIZE)) = (r, got, os1)"
    by (metis prod_cases3)
  from evict_block_inv[OF assms] ev have i1: "pool_shape s1" "pool_unique s1" by simp_all
  from evict_block_effect[OF assms(1)] ev obtain k where k: "k < CACHE_SIZE_BLOCKS" "idx = int k"
    by (metis fst_conv)
  from True have "\<forall>i<CACHE_SIZE_BLOCKS. \<not> holds (cache s) d b i" by (simp add: find_miss_iff)
  from evict_block_miss[OF assms(1) this] ev
  have m1: "\<forall>i<CACHE_SIZE_BLOCKS. \<not> holds (cache s1) d b i" by simp
  show ?thesis
  proof (cases "r = -1")
    case r: True
    have "snd (snd (read_block s d b)) = s1\<lparr>sys := os1\<rparr>"
      using True ev pr r by (simp add: read_block_def Let_def)
    with i1 show ?thesis
      by (simp add: pool_shape_def pool_unique_def)
  next
    case r: False
    define blk where "blk = (cache s1 ! k)\<lparr>data := fill (data (cache s1 ! k)) r got, fd := d,
       block_index := b, dirty := False, frequency := 1, valid := True\<rparr>"
    have st: "snd (snd (read_block s d b)) = s1\<lparr>sys := os1, cache := (cache s1)[k := blk]\<rparr>"
      using True ev pr r k by (simp add: read_block_def Let_def blk_def)
    have "pool_unique (s1\<lparr>sys := os1, cache := (cache s1)[k := blk]\<rparr>)"
      by (rule pool_unique_populate[OF i1(2) i1(1) k(1) m1, of _ blk]) (simp_all add: blk_def)
    with i1(1) show ?thesis unfolding st by (simp add: pool_shape_def)
  qed
next
  case False
  from find_hit[OF False] obtain i where
    i: "i < CACHE_SIZE_BLOCKS" "find_cache_block s d b = int i" by metis
  have st: "snd (snd (read_block s d b)) = s\<lparr>cache := (cache s)[i :=
     (cache s ! i)\<lparr>frequency := frequency (cache s ! i) + 1\<rparr>]\<rparr>"
    using i False by (simp add: read_block_def Let_def)
  have il: "i < length (cache s)" using i(1) assms(1) by (simp add: pool_shape_def)
  have "pool_unique (s\<lparr>cache := (cache s)[i :=
     (cache s ! i)\<lparr>frequency := frequency (cache s ! i) + 1\<rparr>]\<rparr>)"
    by (rule pool_unique_shrink[OF assms(2)]) (use il in \<open>auto simp: nth_list_update\<close>)
  with assms(1) show ?thesis unfolding st by (simp add: pool_shape_def)
qed

lemma write_block_inv:
  assumes "pool_shape s" "pool_unique s"
  shows "pool_shape (snd (write_block s d b n)) \<and> pool_unique (snd (write_block s d b n))
    \<and> 0 \<le> fst (write_block s d b n) \<and> fst (write_block s d b n) < int CACHE_SIZE_BLOCKS"
proof (cases "find_cache_block s d b = -1")
  case True
  obtain idx s1 where ev: "evict_block s = (idx, s1)" by fastforce
  from evict_block_inv[OF assms] ev have i1: "pool_shape s1" "pool_unique s1" by simp_all
  from evict_block_effect[OF assms(1)] ev obtain k where k: "k < CACHE_SIZE_BLOCKS" "idx = int k"
    by (metis fst_conv)
  from True have "\<forall>i<CACHE_SIZE_BLOCKS. \<not> holds (cache s) d b i" by (simp add: find_miss_iff)
  from evict_block_miss[OF assms(1) this] ev
  have m1: "\<forall>i<CACHE_SIZE_BLOCKS. \<not> holds (cache s1) d b i" by simp
  define X where "X = (if n < BLOCK_SIZE then
                  (let (r, got, os1) =
                         os_pread (sys s1) d BLOCK_SIZE (s64 (b * BLOCK_SIZE))
                   in (if r = -1 then replicate (nat BLOCK_SIZE) 0
                       else fill (data (cache s1 ! k)) r got, os1))
                else (data (cache s1 ! k), sys s1))"
  define buf where "buf = fst X"
  define os1 where "os1 = snd X"
  define blk where "blk = (cache s1 ! k)\<lparr>data := buf, fd := d,
       block_index := b, dirty := False, frequency := 1, valid := True\<rparr>"
  have st: "write_block s d b n = (int k, s1\<lparr>sys := os1, cache := (cache s1)[k := blk]\<rparr>)"
    using True ev k
    by (simp add: write_block_def Let_def blk_def buf_def os1_def X_def case_prod_beta)
  have "pool_unique (s1\<lparr>sys := os1, cache := (cache s1)[k := blk]\<rparr>)"
    by (rule pool_unique_populate[OF i1(2) i1(1) k(1) m1, of _ blk]) (simp_all add: blk_def)
  with i1(1) k(1) show ?thesis unfolding st by (simp add: pool_shape_def)
next
  case False
  from find_hit[OF False] obtain i where
    i: "i < CACHE_SIZE_BLOCKS" "find_cache_block s d b = int i" by metis
  have st: "write_block s d b n = (int i, s\<lparr>cache := (cache s)[i :=
     (cache s ! i)\<lparr>frequency := frequency (cache s ! i) + 1\<rparr>]\<rparr>)"
    using i False by (simp add: write_block_def Let_def)
  have il: "i < length (cache s)" using i(1) assms(1) by (simp add: pool_shape_def)
  have "pool_unique (s\<lparr>cache := (cache s)[i :=
     (cache s ! i)\<lparr>frequency := frequency (cache s ! i) + 1\<rparr>]\<rparr>)"
    by (rule pool_unique_shrink[OF assms(2)]) (use il in \<open>auto simp: nth_list_update\<close>)
  with assms(1) i(1) show ?thesis unfolding st by (simp add: pool_shape_def)
qed


subsection \<open>One round of the loops\<close>

declare read_loop.simps [simp del] write_loop.simps [simp del]

lemma BS_pos: "0 < BLOCK_SIZE"
  by (simp add: BLOCK_SIZE_def)

lemma chunk_bounds:
  assumes "n < count"
  shows "0 < chunk offset count n" "chunk offset count n \<le> count - n"
    "chunk offset count n \<le> BLOCK_SIZE - u64 (offset + n) mod BLOCK_SIZE"
proof -
  have "u64 (offset + n) mod BLOCK_SIZE < BLOCK_SIZE"
    using BS_pos by simp
  then show "0 < chunk offset count n" using assms by (simp add: chunk_def)
  show "chunk offset count n \<le> count - n" by (simp add: chunk_def)
  show "chunk offset count n \<le> BLOCK_SIZE - u64 (offset + n) mod BLOCK_SIZE"
    by (simp add: chunk_def)
qed

lemma read_loop_done:
  "\<not> bytes_read < count \<Longrightarrow>
     read_loop s d offset count bytes_read user_buf = Rd_done bytes_read user_buf s"
  using read_loop.simps[of s d offset count bytes_read user_buf] by simp

lemma read_loop_fail:
  "bytes_read < count \<Longrightarrow>
   read_block s d (u64 (offset + bytes_read) div BLOCK_SIZE) = (False, ci, s1) \<Longrightarrow>
     read_loop s d offset count bytes_read user_buf = Rd_failed user_buf s1"
  using read_loop.simps[of s d offset count bytes_read user_buf] by (simp add: Let_def)

lemma read_loop_step:
  "bytes_read < count \<Longrightarrow>
   read_block s d (u64 (offset + bytes_read) div BLOCK_SIZE) = (True, ci, s1) \<Longrightarrow>
     read_loop s d offset count bytes_read user_buf =
     read_loop s1 d offset count (bytes_read + chunk offset count bytes_read)
       (user_buf @ take (nat (chunk offset count bytes_read))
          (drop (nat (u64 (offset + bytes_read) mod BLOCK_SIZE)) (data (cache s1 ! nat ci))))"
  using read_loop.simps[of s d offset count bytes_read user_buf]
  by (simp add: Let_def chunk_def)

lemma write_loop_done:
  "\<not> bytes_written < count \<Longrightarrow>
     write_loop s d offset count bytes_written user_buf = (bytes_written, s)"
  using write_loop.simps[of s d offset count bytes_written user_buf] by simp

lemma write_loop_step:
  "bytes_written < count \<Longrightarrow>
   write_block s d (u64 (offset + bytes_written) div BLOCK_SIZE)
     (chunk offset count bytes_written) = (ci, s1) \<Longrightarrow>
     write_loop s d offset count bytes_written user_buf =
     write_loop
       (s1\<lparr>cache := (cache s1)[nat ci := (cache s1 ! nat ci)
          \<lparr>data := patch (data (cache s1 ! nat ci))
                    (nat (u64 (offset + bytes_written) mod BLOCK_SIZE))
                    (nat (chunk offset count bytes_written))
                    (drop (nat bytes_written) user_buf),
           dirty := True\<rparr>]\<rparr>)
       d offset count (bytes_written + chunk offset count bytes_written) user_buf"
  using write_loop.simps[of s d offset count bytes_written user_buf]
  by (simp add: Let_def chunk_def)

lemma read_loop_inv:
  "pool_shape s \<Longrightarrow> pool_unique s \<Longrightarrow>
     pool_shape (rd_state (read_loop s d offset count bytes_read user_buf))
     \<and> pool_unique (rd_state (read_loop s d offset count bytes_read user_buf))"
proof (induction "nat (count - bytes_read)" arbitrary: s bytes_read user_buf rule: less_induct)
  case less
  show ?case
  proof (cases "bytes_read < count")
    case False
    then show ?thesis using less.prems by (simp add: read_loop_done)
  next
    case True
    obtain ok ci s1 where
      rb: "read_block s d (u64 (offset + bytes_read) div BLOCK_SIZE) = (ok, ci, s1)"
      by (metis prod_cases3)
    from read_block_inv[OF less.prems, of d "u64 (offset + bytes_read) div BLOCK_SIZE"] rb
    have inv1: "pool_shape s1" "pool_unique s1" by simp_all
    show ?thesis
    proof (cases ok)
      case False
      with rb True inv1 show ?thesis by (simp add: read_loop_fail)
    next
      case ok: True
      have m: "nat (count - (bytes_read + chunk offset count bytes_read)) < nat (count - bytes_read)"
        using chunk_bounds[OF True, of offset] by linarith
      from less.hyps[OF m inv1] rb ok True show ?thesis
        by (simp add: read_loop_step)
    qed
  qed
qed

lemma patch_slot_inv:
  assumes "pool_shape s" "pool_unique s"
  shows "pool_shape (s\<lparr>cache := (cache s)[i := (cache s ! i)\<lparr>data := x, dirty := y\<rparr>]\<rparr>)
    \<and> pool_unique (s\<lparr>cache := (cache s)[i := (cache s ! i)\<lparr>data := x, dirty := y\<rparr>]\<rparr>)"
proof -
  have "pool_unique (s\<lparr>cache := (cache s)[i := (cache s ! i)\<lparr>data := x, dirty := y\<rparr>]\<rparr>)"
  proof (cases "i < length (cache s)")
    case True
    show ?thesis
      by (rule pool_unique_shrink[OF assms(2)]) (use True in \<open>auto simp: nth_list_update\<close>)
  next
    case False
    then show ?thesis using assms(2) by (simp add: pool_unique_def list_update_beyond)
  qed
  with assms(1) show ?thesis by (simp add: pool_shape_def)
qed

lemma write_loop_inv:
  "pool_shape s \<Longrightarrow> pool_unique s \<Longrightarrow>
     pool_shape (snd (write_loop s d offset count bytes_written user_buf))
     \<and> pool_unique (snd (write_loop s d offset count bytes_written user_buf))"
proof (induction "nat (count - bytes_written)" arbitrary: s bytes_written rule: less_induct)
  case less
  show ?case
  proof (cases "bytes_written < count")
    case False
    then show ?thesis using less.prems by (simp add: write_loop_done)
  next
    case True
    obtain ci s1 where wb: "write_block s d (u64 (offset + bytes_written) div BLOCK_SIZE)
      (chunk offset count bytes_written) = (ci, s1)" by fastforce
    from write_block_inv[OF less.prems, of d "u64 (offset + bytes_written) div BLOCK_SIZE"
        "chunk offset count bytes_written"] wb
    have inv1: "pool_shape s1" "pool_unique s1" by simp_all
    have m: "nat (count - (bytes_written + chunk offset count bytes_written))
               < nat (count - bytes_written)"
      using chunk_bounds[OF True, of offset] by linarith
    from less.hyps[OF m patch_slot_inv[OF inv1, THEN conjunct1] patch_slot_inv[OF inv1, THEN conjunct2]]
    show ?thesis
      by (simp add: write_loop_step[OF True wb])
  qed
qed

subsection \<open>Loops that only clear flags\<close>

lemma shrinks_refl: "shrinks c c"
  by (simp add: shrinks_def)

lemma shrinks_trans: "shrinks a b \<Longrightarrow> shrinks b c \<Longrightarrow> shrinks a c"
  by (auto simp: shrinks_def)

lemma shrinks_update:
  "(valid x \<longrightarrow> valid (c ! i) \<and> fd x = fd (c ! i) \<and> block_index x = block_index (c ! i))
     \<Longrightarrow> shrinks c (c[i := x])"
  by (cases "i < length c") (auto simp: shrinks_def nth_list_update list_update_beyond)

lemma shrinks_inv:
  assumes "pool_shape s" "pool_unique s" "shrinks (cache s) (cache s')"
  shows "pool_shape s' \<and> pool_unique s'"
proof -
  have "pool_unique s'"
    by (rule pool_unique_shrink[OF assms(2)]) (use assms(3) in \<open>simp add: shrinks_def\<close>)
  with assms(1,3) show ?thesis by (simp add: pool_shape_def shrinks_def)
qed

lemma fsync_loop_frame:
  "shrinks (cache s) (cache (snd (fsync_loop s d js)))
   \<and> open_files (snd (fsync_loop s d js)) = open_files s
   \<and> cache_initialized (snd (fsync_loop s d js)) = cache_initialized s"
proof (induction js arbitrary: s)
  case Nil
  show ?case by (simp add: shrinks_refl)
next
  case (Cons i js)
  let ?b = "cache s ! i"
  show ?case
  proof (cases "valid ?b \<and> fd ?b = d \<and> dirty ?b")
    case False
    then show ?thesis using Cons.IH[of s] by auto
  next
    case True
    obtain r os1 where pw: "os_pwrite (sys s) d (data ?b) BLOCK_SIZE
       (s64 (block_index ?b * BLOCK_SIZE)) = (r, os1)" by fastforce
    show ?thesis
    proof (cases "r = -1")
      case r: True
      then show ?thesis using True pw by (simp add: shrinks_refl)
    next
      case r: False
      let ?s1 = "s\<lparr>sys := os1, cache := (cache s)[i := ?b\<lparr>dirty := False\<rparr>]\<rparr>"
      have e: "fsync_loop s d (i # js) = fsync_loop ?s1 d js"
        using True pw r by simp
      have "shrinks (cache s) (cache ?s1)"
        using shrinks_update[of "?b\<lparr>dirty := False\<rparr>" "cache s" i] by simp
      with Cons.IH[of ?s1] show ?thesis unfolding e
        by (auto intro: shrinks_trans)
    qed
  qed
qed

lemma nth_update_if:
  "xs[i := x] ! j = (if i = j \<and> i < length xs then x else xs ! j)"
  by (cases "i < length xs") (auto simp: nth_list_update list_update_beyond)

lemma close_loop_nth:
  "close_loop c d js ! i =
       (if i \<in> set js \<and> i < length c \<and> valid (c ! i) \<and> fd (c ! i) = d
        then (c ! i)\<lparr>valid := False, dirty := False\<rparr> else c ! i)"
proof (induction js arbitrary: c)
  case Nil
  show ?case by simp
next
  case (Cons j js)
  show ?case
  proof (cases "valid (c ! j) \<and> fd (c ! j) = d")
    case False
    with Cons show ?thesis by auto
  next
    case True
    let ?c = "c[j := (c ! j)\<lparr>valid := False, dirty := False\<rparr>]"
    have "close_loop c d (j # js) ! i = close_loop ?c d js ! i"
      using True by simp
    also have "\<dots> = (if i \<in> set js \<and> i < length ?c \<and> valid (?c ! i) \<and> fd (?c ! i) = d
        then (?c ! i)\<lparr>valid := False, dirty := False\<rparr> else ?c ! i)"
      by (rule Cons.IH)
    finally show ?thesis using True
      by (cases "i = j") (auto simp: nth_update_if)
  qed
qed

lemma close_loop_length: "length (close_loop c d js) = length c"
  by (induction js arbitrary: c) auto

lemma close_loop_shrinks: "shrinks c (close_loop c d js)"
  by (simp add: shrinks_def close_loop_length close_loop_nth)

lemma init_cache_alloc_frame:
  "shrinks (cache s) (cache (snd (init_cache_alloc s js)))"
proof (induction js arbitrary: s)
  case Nil
  show ?case by (simp add: shrinks_refl)
next
  case (Cons i js)
  obtain rc buf os1 where pm: "os_posix_memalign (sys s) BLOCK_SIZE = (rc, buf, os1)"
    by (metis prod_cases3)
  show ?case
  proof (cases "rc = 0")
    case False
    then show ?thesis using pm by (simp add: set_errno_def shrinks_refl)
  next
    case True
    let ?s1 = "s\<lparr>sys := os1, cache := (cache s)[i := (cache s ! i)
       \<lparr>data := buf, fd := -1, dirty := False, frequency := 0, valid := False\<rparr>]\<rparr>"
    have e: "init_cache_alloc s (i # js) = init_cache_alloc ?s1 js"
      using True pm by simp
    have "shrinks (cache s) (cache ?s1)"
      using shrinks_update[of "(cache s ! i)
       \<lparr>data := buf, fd := -1, dirty := False, frequency := 0, valid := False\<rparr>" "cache s" i]
      by simp
    with Cons.IH[of ?s1] show ?thesis unfolding e by (auto intro: shrinks_trans)
  qed
qed

lemma init_cache_frame: "shrinks (cache s) (cache (snd (init_cache s)))"
proof -
  obtain ok s1 where a: "init_cache_alloc s [0..<CACHE_SIZE_BLOCKS] = (ok, s1)" by fastforce
  with init_cache_alloc_frame[of s "[0..<CACHE_SIZE_BLOCKS]"]
  show ?thesis by (cases ok) (simp_all add: init_cache_def shrinks_refl)
qed

lemma vtpc_open_frame: "shrinks (cache s) (cache (snd (vtpc_open s path fl mode)))"
proof -
  define ini where "ini = (if \<not> cache_initialized s then init_cache s else (0, s))"
  have 1: "shrinks (cache s) (cache (snd ini))"
    using init_cache_frame[of s] by (simp add: ini_def shrinks_refl)
  have "cache (snd (vtpc_open s path fl mode)) = cache (snd ini)"
    unfolding vtpc_open_def ini_def[symmetric]
    by (simp add: Let_def case_prod_beta set_errno_def)
  with 1 show ?thesis by simp
qed

lemma vtpc_fsync_frame: "shrinks (cache s) (cache (snd (vtpc_fsync s h)))"
proof (cases "bad_handle s h")
  case True
  then show ?thesis by (simp add: vtpc_fsync_def set_errno_def shrinks_refl)
next
  case False
  obtain ok s1 where a: "fsync_loop s (os_fd (open_files s ! nat h)) [0..<CACHE_SIZE_BLOCKS]
     = (ok, s1)" by fastforce
  from fsync_loop_frame[of s "os_fd (open_files s ! nat h)" "[0..<CACHE_SIZE_BLOCKS]"] a
  have "shrinks (cache s) (cache s1)" by simp
  then show ?thesis using False a
    by (cases ok) (simp_all add: vtpc_fsync_def Let_def case_prod_beta)
qed

lemma vtpc_close_cache:
  "\<not> bad_handle s h \<Longrightarrow>
     cache (snd (vtpc_close s h)) =
       close_loop (cache (snd (vtpc_fsync s h))) (os_fd (open_files s ! nat h))
         [0..<CACHE_SIZE_BLOCKS]"
  by (simp add: vtpc_close_def Let_def case_prod_beta)

lemma vtpc_close_frame: "shrinks (cache s) (cache (snd (vtpc_close s h)))"
proof (cases "bad_handle s h")
  case True
  then show ?thesis by (simp add: vtpc_close_def set_errno_def shrinks_refl)
next
  case False
  show ?thesis unfolding vtpc_close_cache[OF False]
    by (rule shrinks_trans[OF vtpc_fsync_frame close_loop_shrinks])
qed

lemma pool_cache_cong:
  "cache s' = cache s \<Longrightarrow> pool_shape s' = pool_shape s \<and> pool_unique s' = pool_unique s"
  by (simp add: pool_shape_def pool_unique_def)

lemma vtpc_read_inv:
  assumes "pool_shape s" "pool_unique s"
  shows "pool_shape (snd (snd (vtpc_read s h n))) \<and> pool_unique (snd (snd (vtpc_read s h n)))"
proof (cases "bad_handle s h \<or> current_offset (open_files s ! nat h) \<ge> file_size (open_files s ! nat h)")
  case True
  then have "cache (snd (snd (vtpc_read s h n))) = cache s"
    by (auto simp: vtpc_read_def set_errno_def Let_def)
  with assms pool_cache_cong show ?thesis by blast
next
  case False
  define r where "r = read_loop s (os_fd (open_files s ! nat h))
     (current_offset (open_files s ! nat h))
     (clamp_count (current_offset (open_files s ! nat h)) (file_size (open_files s ! nat h)) n)
     0 []"
  have "cache (snd (snd (vtpc_read s h n))) = cache (rd_state r)"
    using False unfolding vtpc_read_def r_def[symmetric] Let_def
    by (cases r) simp_all
  moreover have "pool_shape (rd_state r) \<and> pool_unique (rd_state r)"
    unfolding r_def by (rule read_loop_inv[OF assms])
  ultimately show ?thesis using pool_cache_cong by blast
qed

lemma vtpc_write_inv:
  assumes "pool_shape s" "pool_unique s"
  shows "pool_shape (snd (vtpc_write s h buf n)) \<and> pool_unique (snd (vtpc_write s h buf n))"
proof (cases "bad_handle s h")
  case True
  then have "cache (snd (vtpc_write s h buf n)) = cache s"
    by (simp add: vtpc_write_def set_errno_def)
  with assms pool_cache_cong show ?thesis by blast
next
  case False
  define r where "r = write_loop s (os_fd (open_files s ! nat h))
     (current_offset (open_files s ! nat h)) n 0 buf"
  have "cache (snd (vtpc_write s h buf n)) = cache (snd r)"
    using False unfolding vtpc_write_def r_def[symmetric] Let_def
    by (simp add: case_prod_beta)
  moreover have "pool_shape (snd r) \<and> pool_unique (snd r)"
    unfolding r_def by (rule write_loop_inv[OF assms])
  ultimately show ?thesis using pool_cache_cong by blast
qed

lemma vtpc_lseek_cache: "cache (snd (vtpc_lseek s h off wh)) = cache s"
  by (simp add: vtpc_lseek_def set_errno_def Let_def)

lemma vtpc_close_invalidates:
  assumes "pool_shape s" "\<not> bad_handle s h" "i < CACHE_SIZE_BLOCKS"
  shows "\<not> (valid (cache (snd (vtpc_close s h)) ! i)
           \<and> fd (cache (snd (vtpc_close s h)) ! i) = os_fd (open_files s ! nat h))"
proof -
  have "length (cache (snd (vtpc_fsync s h))) = CACHE_SIZE_BLOCKS"
    using vtpc_fsync_frame[of s h] assms(1) by (simp add: shrinks_def pool_shape_def)
  with assms(3) show ?thesis
    unfolding vtpc_close_cache[OF assms(2)] by (simp add: close_loop_nth)
qed


subsection \<open>A write-back that fails in vtpc_close\<close>

lemma one_dirty_handle0:
  "open_files (one_dirty_state os) ! 0
     = \<lparr>os_fd = 3, current_offset = BLOCK_SIZE, file_size = BLOCK_SIZE, flags = 2\<rparr>"
  using MOF_gt(2) by (simp add: one_dirty_state_def)

lemma one_dirty_good: "\<not> bad_handle (one_dirty_state os) 0"
  using MOF_gt(2) by (simp add: bad_handle_def one_dirty_handle0)

lemma one_dirty_slot0:
  "cache (one_dirty_state os) ! 0 = \<lparr>data = replicate (nat BLOCK_SIZE) 7, fd = 3,
      block_index = 0, dirty = True, frequency = 1, valid = True\<rparr>"
  using CSB_pos by (simp add: one_dirty_state_def)

lemma one_dirty_shape: "pool_shape (one_dirty_state os)"
  by (simp add: pool_shape_def one_dirty_state_def)

lemma one_dirty_fsync_fails:
  assumes "faults os = [Fail]"
  shows "vtpc_fsync (one_dirty_state os) 0
    = (-1, (one_dirty_state os)\<lparr>sys := os\<lparr>faults := [],
          trace := trace os @ [writeback_call (one_dirty_state os) 3 0], errno := EIO\<rparr>\<rparr>)"
proof -
  have pw: "os_pwrite os 3 (replicate (nat BLOCK_SIZE) 7) BLOCK_SIZE (s64 (0 * BLOCK_SIZE))
    = (-1, os\<lparr>faults := [],
          trace := trace os @ [writeback_call (one_dirty_state os) 3 0], errno := EIO\<rparr>)"
    using assms
    by (simp add: os_pwrite_def sys_enter_def writeback_call_def one_dirty_slot0)
  have "fsync_loop (one_dirty_state os) 3 [0..<CACHE_SIZE_BLOCKS]
    = (False, (one_dirty_state os)\<lparr>sys := os\<lparr>faults := [],
          trace := trace os @ [writeback_call (one_dirty_state os) 3 0], errno := EIO\<rparr>\<rparr>)"
    unfolding upt_CSB using pw
    by (simp add: one_dirty_slot0 Let_def) (simp add: one_dirty_state_def)
  then show ?thesis
    using one_dirty_good[of os] by (simp add: vtpc_fsync_def one_dirty_handle0)
qed

text \<open>
  C3 (the code departs from the claim). vtpc_close calls vtpc_fsync and drops its result.
  With one dirty block whose write-back fails, the forced flush returns -1, yet close
  returns 0, the result of the raw close; the block is invalidated, the handle slot is
  released, and the bytes never reached the file.
\<close>

theorem close_reports_raw_close_only:
  "fst (vtpc_fsync (one_dirty_state (os3\<lparr>faults := [Fail]\<rparr>)) 0) = -1
   \<and> fst (vtpc_close (one_dirty_state (os3\<lparr>faults := [Fail]\<rparr>)) 0) = 0
   \<and> files (sys (snd (vtpc_close (one_dirty_state (os3\<lparr>faults := [Fail]\<rparr>)) 0))) 3 = []
   \<and> \<not> valid (cache (snd (vtpc_close (one_dirty_state (os3\<lparr>faults := [Fail]\<rparr>)) 0)) ! 0)
   \<and> os_fd (open_files (snd (vtpc_close (one_dirty_state (os3\<lparr>faults := [Fail]\<rparr>)) 0)) ! 0) = -1"
proof -
  let ?os = "os3\<lparr>faults := [Fail]\<rparr>"
  let ?s = "one_dirty_state ?os"
  have fl: "faults ?os = [Fail]" by simp
  note fs = one_dirty_fsync_fails[OF fl]
  have 1: "fst (vtpc_fsync ?s 0) = -1" unfolding fs by simp
  have cl: "os_close (?os\<lparr>faults := [],
          trace := trace ?os @ [writeback_call ?s 3 0], errno := EIO\<rparr>) 3
     = (0, ?os\<lparr>faults := [],
          trace := trace ?os @ [writeback_call ?s 3 0, Sys_close 3], errno := EIO,
          opened := []\<rparr>)"
    by (simp add: os_close_def sys_enter_def os3_def os0_def)
  have 2: "fst (vtpc_close ?s 0) = 0"
    using one_dirty_good[of ?os] cl
    by (simp add: vtpc_close_def Let_def fs one_dirty_handle0)
  have 3: "files (sys (snd (vtpc_close ?s 0))) 3 = []"
    using one_dirty_good[of ?os] cl
    by (simp add: vtpc_close_def Let_def fs one_dirty_handle0) (simp add: os3_def os0_def)
  have 4: "\<not> valid (cache (snd (vtpc_close ?s 0)) ! 0)"
    using CSB_pos
    by (simp add: vtpc_close_cache[OF one_dirty_good] fs close_loop_nth one_dirty_handle0
          one_dirty_slot0 one_dirty_shape[unfolded pool_shape_def])
  have 5: "os_fd (open_files (snd (vtpc_close ?s 0)) ! 0) = -1"
    using one_dirty_good[of ?os] cl MOF_gt(2)
    by (simp add: vtpc_close_def Let_def fs one_dirty_handle0) (simp add: one_dirty_state_def)
  from 1 2 3 4 5 show ?thesis by blast
qed


subsection \<open>A write-back that fails during eviction\<close>

lemma busy_nth: "i < CACHE_SIZE_BLOCKS \<Longrightarrow> cache (busy_state os) ! i = busy_block i"
  by (simp add: busy_state_def del: upt_rec_numeral)

lemma busy_handle0:
  "open_files (busy_state os) ! 0
     = \<lparr>os_fd = 3, current_offset = int CACHE_SIZE_BLOCKS * BLOCK_SIZE,
        file_size = int CACHE_SIZE_BLOCKS * BLOCK_SIZE + BLOCK_SIZE, flags = 2\<rparr>"
  using MOF_gt(2) by (simp add: busy_state_def del: upt_rec_numeral)

lemma busy_good: "\<not> bad_handle (busy_state os) 0"
  using MOF_gt(2) by (simp add: bad_handle_def busy_handle0)

lemma busy_shape: "pool_shape (busy_state os)"
  by (simp add: pool_shape_def busy_state_def del: upt_rec_numeral)

lemma busy_miss: "find_cache_block (busy_state os) 3 (int CACHE_SIZE_BLOCKS) = -1"
  unfolding find_miss_iff by (simp add: holds_def busy_nth busy_block_def)

lemma busy_scan:
  "evict_scan (cache (busy_state os)) (-1) 0 [0..<CACHE_SIZE_BLOCKS] = Scanned 0"
proof -
  have v: "\<forall>i<CACHE_SIZE_BLOCKS. valid (cache (busy_state os) ! i)"
    by (simp add: busy_nth busy_block_def)
  from evict_scan_all_valid[OF v] obtain k where
    k: "evict_scan (cache (busy_state os)) (-1) 0 [0..<CACHE_SIZE_BLOCKS] = Scanned (int k)"
       "best (cache (busy_state os)) k [0..<CACHE_SIZE_BLOCKS]" by blast
  have "k = 0"
  proof (rule ccontr)
    assume "k \<noteq> 0"
    then have "0 < k" by simp
    with k(2) have "frequency (cache (busy_state os) ! 0) < frequency (cache (busy_state os) ! k)"
      "k < CACHE_SIZE_BLOCKS"
      by (auto simp: best_upt)
    then show False using CSB_pos by (simp add: busy_nth busy_block_def)
  qed
  with k(1) show ?thesis by simp
qed

lemma busy_writeback:
  assumes "faults os = [Normal, Fail]" "opened os = [3]"
  shows "sys (evict_writeback (busy_state os) (busy_block 0))
    = os\<lparr>faults := [],
         trace := trace os @ [Sys_lseek 3 0, Sys_write 3 (replicate (nat BLOCK_SIZE) 7),
                   Sys_perror ''vtpc: eviction write failed''],
         fpos := (fpos os)(3 := 0), errno := EIO\<rparr>"
  using assms
  by (simp add: evict_writeback_def busy_block_def os_lseek_def os_write_def os_perror_def
        sys_enter_def s64_def busy_state_def BLOCK_SIZE_def del: upt_rec_numeral)

lemma busy_evict:
  assumes "faults os = [Normal, Fail]" "opened os = [3]"
  shows "evict_block (busy_state os)
    = (0, (busy_state os)\<lparr>sys := os\<lparr>faults := [],
         trace := trace os @ [Sys_lseek 3 0, Sys_write 3 (replicate (nat BLOCK_SIZE) 7),
                   Sys_perror ''vtpc: eviction write failed''],
         fpos := (fpos os)(3 := 0), errno := EIO\<rparr>,
        cache := (cache (busy_state os))[0 :=
           (busy_block 0)\<lparr>valid := False, dirty := False, frequency := 0\<rparr>]\<rparr>)"
proof -
  have b0: "cache (busy_state os) ! 0 = busy_block 0" using busy_nth[OF CSB_pos] .
  have d0: "dirty (busy_block 0)" by (simp add: busy_block_def)
  have fr: "cache (evict_writeback (busy_state os) (busy_block 0)) = cache (busy_state os)"
    "open_files (evict_writeback (busy_state os) (busy_block 0)) = open_files (busy_state os)"
    "cache_initialized (evict_writeback (busy_state os) (busy_block 0))
       = cache_initialized (busy_state os)"
    using evict_writeback_frame by auto
  have "evict_writeback (busy_state os) (busy_block 0)
    = (busy_state os)\<lparr>sys := sys (evict_writeback (busy_state os) (busy_block 0))\<rparr>"
    using fr by (simp add: vtpc_state.equality)
  then show ?thesis
    unfolding evict_block_def busy_scan
    using b0 d0 busy_writeback[OF assms] by (simp add: Let_def)
qed

lemma busy_read_block:
  assumes "faults os = [Normal, Fail]" "opened os = [3]" "files os 3 = []"
  shows "\<exists>s2. read_block (busy_state os) 3 (int CACHE_SIZE_BLOCKS) = (True, 0, s2)
     \<and> data (cache s2 ! 0) = replicate (nat BLOCK_SIZE) 0
     \<and> (\<forall>i<CACHE_SIZE_BLOCKS. \<not> holds (cache s2) 3 0 i)
     \<and> files (sys s2) 3 = []
     \<and> Sys_perror ''vtpc: eviction write failed'' \<in> set (trace (sys s2))
     \<and> open_files s2 = open_files (busy_state os)"
proof -
  let ?os1 = "os\<lparr>faults := [],
         trace := trace os @ [Sys_lseek 3 0, Sys_write 3 (replicate (nat BLOCK_SIZE) 7),
                   Sys_perror ''vtpc: eviction write failed''],
         fpos := (fpos os)(3 := 0), errno := EIO\<rparr>"
  have off: "s64 (int CACHE_SIZE_BLOCKS * BLOCK_SIZE) = 4194304"
    by (simp add: s64_def CACHE_SIZE_BLOCKS_def BLOCK_SIZE_def)
  have pr: "os_pread ?os1 3 BLOCK_SIZE (s64 (int CACHE_SIZE_BLOCKS * BLOCK_SIZE))
     = (0, [], ?os1\<lparr>trace := trace ?os1 @ [Sys_pread 3 BLOCK_SIZE 4194304]\<rparr>)"
    using assms by (simp add: os_pread_def sys_enter_def off limit_def)
  have len: "0 < length (cache (busy_state os))"
    using busy_shape[of os] CSB_pos by (simp add: pool_shape_def)
  have fl: "fill x 0 [] = replicate (nat BLOCK_SIZE) 0" for x
    by (simp add: fill_def BLOCK_SIZE_def)
  define s2 where "s2 = snd (snd (read_block (busy_state os) 3 (int CACHE_SIZE_BLOCKS)))"
  have rb: "read_block (busy_state os) 3 (int CACHE_SIZE_BLOCKS) = (True, 0, s2)"
    and c2: "cache s2 = (cache (busy_state os))[0 := (busy_block 0)
          \<lparr>data := replicate (nat BLOCK_SIZE) 0, fd := 3, block_index := int CACHE_SIZE_BLOCKS,
            dirty := False, frequency := 1, valid := True\<rparr>]"
    and y2: "sys s2 = ?os1\<lparr>trace := trace ?os1 @ [Sys_pread 3 BLOCK_SIZE 4194304]\<rparr>"
    and o2: "open_files s2 = open_files (busy_state os)"
    unfolding s2_def read_block_def busy_miss busy_evict[OF assms(1,2)]
    using pr len by (simp_all add: Let_def fl)
  have h: "\<forall>i<CACHE_SIZE_BLOCKS. \<not> holds (cache s2) 3 0 i"
  proof (intro allI impI)
    fix i assume "i < CACHE_SIZE_BLOCKS"
    then show "\<not> holds (cache s2) 3 0 i"
      unfolding c2 using len CSB_pos
      by (cases "i = 0") (simp_all add: holds_def busy_nth busy_block_def)
  qed
  show ?thesis
    using rb c2 y2 o2 h len assms(3) by (intro exI[of _ s2]) simp
qed

text \<open>
  C2 (the code departs from the claim). evict_block has no error result: when the write
  of the dirty candidate fails it prints a message, marks the slot clean and invalid and
  returns it. Here the pool is full of dirty blocks, a read misses, the write-back of the
  evicted block 0 fails, and vtpc_read still returns 1, the count asked for. The evicted
  bytes are neither in the file nor in the pool any more.
\<close>

theorem eviction_failure_swallowed:
  "fst (vtpc_read (busy_state (os3\<lparr>faults := [Normal, Fail]\<rparr>)) 0 1) = 1
   \<and> Sys_perror ''vtpc: eviction write failed''
        \<in> set (trace (sys (snd (snd (vtpc_read (busy_state (os3\<lparr>faults := [Normal, Fail]\<rparr>)) 0 1)))))
   \<and> files (sys (snd (snd (vtpc_read (busy_state (os3\<lparr>faults := [Normal, Fail]\<rparr>)) 0 1)))) 3 = []
   \<and> find_cache_block (snd (snd (vtpc_read (busy_state (os3\<lparr>faults := [Normal, Fail]\<rparr>)) 0 1))) 3 0 = -1
   \<and> dirty (cache (busy_state (os3\<lparr>faults := [Normal, Fail]\<rparr>)) ! 0)
   \<and> holds (cache (busy_state (os3\<lparr>faults := [Normal, Fail]\<rparr>))) 3 0 0"
proof -
  let ?os = "os3\<lparr>faults := [Normal, Fail]\<rparr>"
  let ?s = "busy_state ?os"
  have a: "faults ?os = [Normal, Fail]" "opened ?os = [3]" "files ?os 3 = []"
    by (simp_all add: os3_def os0_def)
  from busy_read_block[OF a] obtain s2 where s2:
    "read_block ?s 3 (int CACHE_SIZE_BLOCKS) = (True, 0, s2)"
    "data (cache s2 ! 0) = replicate (nat BLOCK_SIZE) 0"
    "\<forall>i<CACHE_SIZE_BLOCKS. \<not> holds (cache s2) 3 0 i"
    "files (sys s2) 3 = []"
    "Sys_perror ''vtpc: eviction write failed'' \<in> set (trace (sys s2))"
    "open_files s2 = open_files ?s" by blast
  have bi: "u64 (int CACHE_SIZE_BLOCKS * BLOCK_SIZE + 0) div BLOCK_SIZE = int CACHE_SIZE_BLOCKS"
    by (simp add: u64_def CACHE_SIZE_BLOCKS_def BLOCK_SIZE_def)
  have ch: "chunk (int CACHE_SIZE_BLOCKS * BLOCK_SIZE) 1 0 = 1"
    by (simp add: chunk_def u64_def CACHE_SIZE_BLOCKS_def BLOCK_SIZE_def)
  have cc: "clamp_count (int CACHE_SIZE_BLOCKS * BLOCK_SIZE)
       (int CACHE_SIZE_BLOCKS * BLOCK_SIZE + BLOCK_SIZE) 1 = 1"
    by (simp add: clamp_count_def u64_def CACHE_SIZE_BLOCKS_def BLOCK_SIZE_def)
  have "read_loop ?s 3 (int CACHE_SIZE_BLOCKS * BLOCK_SIZE) 1 0 []
      = read_loop s2 3 (int CACHE_SIZE_BLOCKS * BLOCK_SIZE) 1 1
          ([] @ take (nat 1) (drop (nat (u64 (int CACHE_SIZE_BLOCKS * BLOCK_SIZE + 0) mod BLOCK_SIZE))
             (data (cache s2 ! nat 0))))"
    using read_loop_step[of 0 1 ?s 3 "int CACHE_SIZE_BLOCKS * BLOCK_SIZE" 0 s2 "[]"] s2(1) bi ch
    by simp
  also have "\<dots> = Rd_done 1 ([] @ take (nat 1)
      (drop (nat (u64 (int CACHE_SIZE_BLOCKS * BLOCK_SIZE + 0) mod BLOCK_SIZE))
             (data (cache s2 ! nat 0)))) s2"
    by (rule read_loop_done) simp
  finally have rl: "\<exists>ub. read_loop ?s 3 (int CACHE_SIZE_BLOCKS * BLOCK_SIZE) 1 0 [] = Rd_done 1 ub s2"
    by blast
  then obtain ub where ub: "read_loop ?s 3 (int CACHE_SIZE_BLOCKS * BLOCK_SIZE) 1 0 [] = Rd_done 1 ub s2"
    by blast
  have r: "fst (vtpc_read ?s 0 1) = 1"
    "snd (snd (vtpc_read ?s 0 1)) = s2\<lparr>open_files := (open_files s2)[nat 0 := (open_files s2 ! nat 0)
        \<lparr>current_offset := s64 (current_offset (open_files s2 ! nat 0) + 1)\<rparr>]\<rparr>"
    using busy_good[of ?os] ub cc BS_pos
    by (simp_all add: vtpc_read_def busy_handle0 Let_def s64_def)
  have 4: "find_cache_block (snd (snd (vtpc_read ?s 0 1))) 3 0 = -1"
    unfolding find_miss_iff r(2) using s2(3) by simp
  have 5: "dirty (cache ?s ! 0)" "holds (cache ?s) 3 0 0"
    using CSB_pos by (simp_all add: busy_nth busy_block_def holds_def)
  from r(1) 4 5 s2(4,5) show ?thesis unfolding r(2) by simp
qed

subsection \<open>The clamp of vtpc_read\<close>

lemma small_handle0:
  "open_files (small_state os) ! 0 = \<lparr>os_fd = 3, current_offset = 1, file_size = 2, flags = 2\<rparr>"
  using MOF_gt(2) by (simp add: small_state_def)

lemma small_good: "\<not> bad_handle (small_state os) 0"
  using MOF_gt(2) by (simp add: bad_handle_def small_handle0)

lemma CSB_gt1: "Suc 0 < CACHE_SIZE_BLOCKS"
  by (simp add: CACHE_SIZE_BLOCKS_def)

lemma clamp_wraps: "clamp_count 1 2 (2 ^ 64 - 1) = 2 ^ 64 - 1"
  by (simp add: clamp_count_def u64_def)

lemma small_round1:
  assumes "faults os = [Normal, Fail]" "opened os = [3]" "files os 3 = [65, 66]"
  shows "read_block (small_state os) 3 0
    = (True, 0, (small_state os)\<lparr>sys := os\<lparr>faults := [Fail],
                     trace := trace os @ [Sys_pread 3 BLOCK_SIZE 0]\<rparr>,
          cache := (cache (small_state os))[0 :=
            \<lparr>data = [65, 66] @ replicate (nat (BLOCK_SIZE - 2)) 0, fd = 3, block_index = 0,
             dirty = False, frequency = 1, valid = True\<rparr>]\<rparr>)"
proof -
  have miss: "find_cache_block (small_state os) 3 0 = -1"
    unfolding find_miss_iff by (simp add: holds_def small_state_def blank_block_def)
  have "evict_scan (cache (small_state os)) (-1) 0 [0..<CACHE_SIZE_BLOCKS] = Returned (int 0)"
    by (rule evict_scan_first_invalid)
       (use CSB_pos in \<open>simp_all add: small_state_def blank_block_def\<close>)
  then have ev: "evict_block (small_state os) = (0, small_state os)"
    by (simp add: evict_block_def)
  have pr: "os_pread os 3 BLOCK_SIZE (s64 (0 * BLOCK_SIZE))
     = (2, [65, 66], os\<lparr>faults := [Fail], trace := trace os @ [Sys_pread 3 BLOCK_SIZE 0]\<rparr>)"
    using assms by (simp add: os_pread_def sys_enter_def limit_def s64_def BLOCK_SIZE_def)
  have fl: "fill (replicate (nat BLOCK_SIZE) 0) 2 [65, 66]
     = [65, 66] @ replicate (nat (BLOCK_SIZE - 2)) 0"
    by (simp add: fill_def BLOCK_SIZE_def)
  have b0: "cache (small_state os) ! 0 = blank_block"
    using CSB_pos by (simp add: small_state_def)
  show ?thesis
    unfolding read_block_def miss ev using pr fl b0
    by (simp add: Let_def blank_block_def) (simp add: small_state_def)
qed

lemma small_round2:
  assumes "faults os = [Fail]" "cache s = (replicate CACHE_SIZE_BLOCKS blank_block)[0 := b]"
    "valid b" "block_index b = 0" "sys s = os"
  shows "\<exists>s2. read_block s 3 1 = (False, 1, s2)
           \<and> Sys_pread 3 BLOCK_SIZE BLOCK_SIZE \<in> set (trace (sys s2))"
proof -
  have miss: "find_cache_block s 3 1 = -1"
    unfolding find_miss_iff assms(2) using assms(3,4)
    by (simp add: holds_def nth_update_if blank_block_def)
  have "evict_scan (cache s) (-1) 0 [0..<CACHE_SIZE_BLOCKS] = Returned (int 1)"
    by (rule evict_scan_first_invalid)
       (use CSB_gt1 assms(3) in \<open>simp_all add: assms(2) blank_block_def\<close>)
  then have ev: "evict_block s = (1, s)"
    by (simp add: evict_block_def)
  have pr: "os_pread os 3 BLOCK_SIZE (s64 (1 * BLOCK_SIZE))
     = (-1, [], os\<lparr>faults := [], trace := trace os @ [Sys_pread 3 BLOCK_SIZE BLOCK_SIZE],
               errno := EIO\<rparr>)"
    using assms(1) by (simp add: os_pread_def sys_enter_def s64_def BLOCK_SIZE_def)
  show ?thesis
    unfolding read_block_def miss ev using pr assms(5)
    by (simp add: Let_def)
qed

text \<open>
  C7 (the code departs from the claim). The clamp tests \<^verbatim>\<open>offset + count > file_size\<close> in
  unsigned 64-bit arithmetic, so the sum wraps for a count of at least 2^64 - offset, and
  the count is then not clamped. With cursor 1, tracked size 2 and count 2^64 - 1 the first
  round copies 4095 bytes to the caller, where one byte remains before the tracked size,
  and the second round reads the backing store at offset 4096; when that read fails the
  call returns -1.
\<close>

theorem read_clamp_wraps:
  "current_offset (open_files (small_state (os_ab\<lparr>faults := [Normal, Fail]\<rparr>)) ! 0) = 1
   \<and> file_size (open_files (small_state (os_ab\<lparr>faults := [Normal, Fail]\<rparr>)) ! 0) = 2
   \<and> clamp_count 1 2 (2 ^ 64 - 1) = 2 ^ 64 - 1
   \<and> fst (vtpc_read (small_state (os_ab\<lparr>faults := [Normal, Fail]\<rparr>)) 0 (2 ^ 64 - 1)) = -1
   \<and> length (fst (snd (vtpc_read (small_state (os_ab\<lparr>faults := [Normal, Fail]\<rparr>)) 0 (2 ^ 64 - 1))))
        = 4095
   \<and> Sys_pread 3 BLOCK_SIZE BLOCK_SIZE \<in> set (trace (sys (snd (snd
        (vtpc_read (small_state (os_ab\<lparr>faults := [Normal, Fail]\<rparr>)) 0 (2 ^ 64 - 1))))))"
proof -
  let ?os = "os_ab\<lparr>faults := [Normal, Fail]\<rparr>"
  let ?s = "small_state ?os"
  let ?n = "2 ^ 64 - 1 :: int"
  have a: "faults ?os = [Normal, Fail]" "opened ?os = [3]" "files ?os 3 = [65, 66]"
    by (simp_all add: os_ab_def os3_def os0_def)
  define b where "b = \<lparr>data = [65, 66] @ replicate (nat (BLOCK_SIZE - 2)) 0, fd = 3,
     block_index = 0, dirty = False, frequency = 1, valid = True\<rparr>"
  define s1 where "s1 = ?s\<lparr>sys := ?os\<lparr>faults := [Fail],
                     trace := trace ?os @ [Sys_pread 3 BLOCK_SIZE 0]\<rparr>,
          cache := (cache ?s)[0 := b]\<rparr>"
  have r1: "read_block ?s 3 0 = (True, 0, s1)"
    unfolding s1_def b_def by (rule small_round1[OF a])
  have c1: "cache s1 = (replicate CACHE_SIZE_BLOCKS blank_block)[0 := b]"
    by (simp add: s1_def small_state_def)
  have d1: "data (cache s1 ! nat 0) = [65, 66] @ replicate (nat (BLOCK_SIZE - 2)) 0"
    using CSB_pos by (simp add: c1 b_def)
  from small_round2[of "sys s1" s1 b] c1 obtain s2 where r2:
    "read_block s1 3 1 = (False, 1, s2)"
    "Sys_pread 3 BLOCK_SIZE BLOCK_SIZE \<in> set (trace (sys s2))"
    by (auto simp: s1_def b_def)
  have g0: "u64 (1 + 0) div BLOCK_SIZE = 0" "u64 (1 + 0) mod BLOCK_SIZE = 1"
    "chunk 1 ?n 0 = 4095"
    by (simp_all add: u64_def chunk_def BLOCK_SIZE_def)
  have g1: "u64 (1 + 4095) div BLOCK_SIZE = 1"
    by (simp add: u64_def BLOCK_SIZE_def)
  define ub where "ub = [] @ take (nat 4095) (drop (nat 1) (data (cache s1 ! nat 0)))"
  have lub: "length ub = 4095"
    unfolding ub_def d1 by (simp add: BLOCK_SIZE_def)
  have "read_loop ?s 3 1 ?n 0 [] = read_loop s1 3 1 ?n (0 + 4095) ub"
    using read_loop_step[of 0 ?n ?s 3 1 0 s1 "[]"] r1 g0 unfolding ub_def by simp
  also have "\<dots> = Rd_failed ub s2"
    using read_loop_fail[of "0 + 4095" ?n s1 3 1 1 s2 ub] r2(1) g1 by simp
  finally have rl: "read_loop ?s 3 1 ?n 0 [] = Rd_failed ub s2" .
  have res: "vtpc_read ?s 0 ?n = (-1, ub, s2)"
    using small_good[of ?os] rl clamp_wraps
    by (simp add: vtpc_read_def small_handle0 Let_def)
  show ?thesis
    unfolding res using lub r2(2) clamp_wraps by (simp add: small_handle0)
qed

subsection \<open>Bytes of the backing file\<close>









subsection \<open>System calls that do not fail\<close>








subsection \<open>The view through the cache\<close>




lemma pool_uniqueD:
  "pool_unique s \<Longrightarrow> i < CACHE_SIZE_BLOCKS \<Longrightarrow> j < CACHE_SIZE_BLOCKS \<Longrightarrow>
     holds (cache s) d b i \<Longrightarrow> holds (cache s) d b j \<Longrightarrow> i = j"
  unfolding pool_unique_def holds_def by (elim allE[of _ i] impE allE[of _ j]) simp_all









subsection \<open>Eviction keeps the view\<close>





subsection \<open>Installing a block in a slot\<close>


subsection \<open>Reading a block through the cache\<close>


subsection \<open>The bytes of one round\<close>




subsection \<open>The read loop returns the view\<close>




subsection \<open>Writing one round through the cache\<close>




subsection \<open>The write loop updates the view\<close>


subsection \<open>The calls on a healthy descriptor\<close>

lemma coherent_open_files [simp]: "coherent (s\<lparr>open_files := x\<rparr>) d = coherent s d"
  by (simp add: coherent_def pool_shape_def pool_unique_def)

lemma view_open_files [simp]: "view (s\<lparr>open_files := x\<rparr>) d n = view s d n"
  by (simp add: view_def find_cache_block_def Let_def)







subsection \<open>A freshly opened handle\<close>




subsection \<open>A miss goes through eviction\<close>

lemma os_pread_frame:
  "trace (snd (snd (os_pread os d n off))) = trace os @ [Sys_pread d n off]"
  "files (snd (snd (os_pread os d n off))) = files os"
  by (simp_all add: os_pread_def sys_enter_def Let_def split: list.splits)

lemma read_block_miss:
  assumes sh: "pool_shape s" and miss: "find_cache_block s d b = -1"
  shows "fst (snd (read_block s d b)) = fst (evict_block s)"
    and "trace (sys (snd (snd (read_block s d b))))
           = trace (sys (snd (evict_block s))) @ [Sys_pread d BLOCK_SIZE (s64 (b * BLOCK_SIZE))]"
    and "files (sys (snd (snd (read_block s d b)))) = files (sys (snd (evict_block s)))"
    and "j \<noteq> nat (fst (evict_block s)) \<Longrightarrow>
           cache (snd (snd (read_block s d b))) ! j = cache (snd (evict_block s)) ! j"
    and "fst (read_block s d b) \<Longrightarrow>
           holds (cache (snd (snd (read_block s d b)))) d b (nat (fst (evict_block s)))"
    and "fst (read_block s d b) \<Longrightarrow>
           frequency (cache (snd (snd (read_block s d b))) ! nat (fst (evict_block s))) = 1"
    and "length (cache (snd (snd (read_block s d b)))) = length (cache s)"
proof -
  obtain idx s1 where ev: "evict_block s = (idx, s1)" by fastforce
  obtain r got os1 where pr: "os_pread (sys s1) d BLOCK_SIZE (s64 (b * BLOCK_SIZE)) = (r, got, os1)"
    by (metis prod_cases3)
  from evict_block_effect[OF sh] ev obtain k where k: "k < CACHE_SIZE_BLOCKS" "idx = int k"
    "pool_shape s1" by (metis fst_conv snd_conv)
  have kl: "k < length (cache s1)" using k(1,3) by (simp add: pool_shape_def)
  note fr = os_pread_frame[of "sys s1" d BLOCK_SIZE "s64 (b * BLOCK_SIZE)", unfolded pr, simplified]
  define blk where "blk = (cache s1 ! k)\<lparr>data := fill (data (cache s1 ! k)) r got, fd := d,
       block_index := b, dirty := False, frequency := 1, valid := True\<rparr>"
  have rb: "read_block s d b =
      (if r = -1 then (False, idx, s1\<lparr>sys := os1\<rparr>)
       else (True, idx, s1\<lparr>sys := os1, cache := (cache s1)[k := blk]\<rparr>))"
    using miss ev pr k(2) by (simp add: read_block_def Let_def blk_def)
  show "fst (snd (read_block s d b)) = fst (evict_block s)"
    unfolding rb ev by simp
  show "trace (sys (snd (snd (read_block s d b))))
           = trace (sys (snd (evict_block s))) @ [Sys_pread d BLOCK_SIZE (s64 (b * BLOCK_SIZE))]"
    unfolding rb ev using fr(1) by simp
  show "files (sys (snd (snd (read_block s d b)))) = files (sys (snd (evict_block s)))"
    unfolding rb ev using fr(2) by simp
  show "cache (snd (snd (read_block s d b))) ! j = cache (snd (evict_block s)) ! j"
    if "j \<noteq> nat (fst (evict_block s))"
    using that unfolding rb ev k(2) by simp
  show "holds (cache (snd (snd (read_block s d b)))) d b (nat (fst (evict_block s)))"
    if "fst (read_block s d b)"
    using that kl unfolding rb ev k(2) by (simp add: holds_def blk_def split: if_splits)
  show "frequency (cache (snd (snd (read_block s d b))) ! nat (fst (evict_block s))) = 1"
    if "fst (read_block s d b)"
    using that kl unfolding rb ev k(2) by (simp add: blk_def split: if_splits)
  show "length (cache (snd (snd (read_block s d b)))) = length (cache s)"
    using k(3) sh unfolding rb by (simp add: pool_shape_def)
qed

lemma write_block_miss:
  assumes sh: "pool_shape s" and miss: "find_cache_block s d b = -1"
  shows "fst (write_block s d b len) = fst (evict_block s)"
    and "trace (sys (snd (write_block s d b len)))
           = trace (sys (snd (evict_block s)))
             @ (if len < BLOCK_SIZE then [Sys_pread d BLOCK_SIZE (s64 (b * BLOCK_SIZE))] else [])"
    and "files (sys (snd (write_block s d b len))) = files (sys (snd (evict_block s)))"
    and "j \<noteq> nat (fst (evict_block s)) \<Longrightarrow>
           cache (snd (write_block s d b len)) ! j = cache (snd (evict_block s)) ! j"
    and "holds (cache (snd (write_block s d b len))) d b (nat (fst (evict_block s)))"
    and "frequency (cache (snd (write_block s d b len)) ! nat (fst (evict_block s))) = 1"
    and "length (cache (snd (write_block s d b len))) = length (cache s)"
proof -
  obtain idx s1 where ev: "evict_block s = (idx, s1)" by fastforce
  obtain r got os1 where pr: "os_pread (sys s1) d BLOCK_SIZE (s64 (b * BLOCK_SIZE)) = (r, got, os1)"
    by (metis prod_cases3)
  from evict_block_effect[OF sh] ev obtain k where k: "k < CACHE_SIZE_BLOCKS" "idx = int k"
    "pool_shape s1" by (metis fst_conv snd_conv)
  have kl: "k < length (cache s1)" using k(1,3) by (simp add: pool_shape_def)
  note fr = os_pread_frame[of "sys s1" d BLOCK_SIZE "s64 (b * BLOCK_SIZE)", unfolded pr, simplified]
  define buf where "buf = (if len < BLOCK_SIZE
      then (if r = -1 then replicate (nat BLOCK_SIZE) 0 else fill (data (cache s1 ! k)) r got)
      else data (cache s1 ! k))"
  define blk where "blk = (cache s1 ! k)\<lparr>data := buf, fd := d,
       block_index := b, dirty := False, frequency := 1, valid := True\<rparr>"
  have wb: "write_block s d b len =
      (idx, s1\<lparr>sys := (if len < BLOCK_SIZE then os1 else sys s1), cache := (cache s1)[k := blk]\<rparr>)"
    using miss ev pr k(2) by (simp add: write_block_def Let_def blk_def buf_def)
  show "fst (write_block s d b len) = fst (evict_block s)"
    unfolding wb ev by simp
  show "trace (sys (snd (write_block s d b len)))
           = trace (sys (snd (evict_block s)))
             @ (if len < BLOCK_SIZE then [Sys_pread d BLOCK_SIZE (s64 (b * BLOCK_SIZE))] else [])"
    unfolding wb ev using fr(1) by simp
  show "files (sys (snd (write_block s d b len))) = files (sys (snd (evict_block s)))"
    unfolding wb ev using fr(2) by simp
  show "cache (snd (write_block s d b len)) ! j = cache (snd (evict_block s)) ! j"
    if "j \<noteq> nat (fst (evict_block s))"
    using that unfolding wb ev k(2) by simp
  show "holds (cache (snd (write_block s d b len))) d b (nat (fst (evict_block s)))"
    using kl unfolding wb ev k(2) by (simp add: holds_def blk_def)
  show "frequency (cache (snd (write_block s d b len)) ! nat (fst (evict_block s))) = 1"
    using kl unfolding wb ev k(2) by (simp add: blk_def)
  show "length (cache (snd (write_block s d b len))) = length (cache s)"
    using k(3) sh unfolding wb by (simp add: pool_shape_def)
qed

lemma evict_block_forgets:
  assumes sh: "pool_shape s" and u: "pool_unique s"
    and v: "valid (cache s ! nat (fst (evict_block s)))"
  shows "find_cache_block (snd (evict_block s))
           (fd (cache s ! nat (fst (evict_block s))))
           (block_index (cache s ! nat (fst (evict_block s)))) = -1"
proof -
  from evict_block_effect[OF sh] obtain idx where
    e: "idx < CACHE_SIZE_BLOCKS" "fst (evict_block s) = int idx"
    "\<not> valid (cache (snd (evict_block s)) ! idx)"
    "\<forall>j. j \<noteq> idx \<longrightarrow> cache (snd (evict_block s)) ! j = cache s ! j" by metis
  have n: "nat (fst (evict_block s)) = idx" using e(2) by simp
  show ?thesis
    unfolding find_miss_iff n
  proof (intro allI impI)
    fix i assume i: "i < CACHE_SIZE_BLOCKS"
    show "\<not> holds (cache (snd (evict_block s))) (fd (cache s ! idx)) (block_index (cache s ! idx)) i"
    proof (cases "i = idx")
      case True
      then show ?thesis using e(3) by (simp add: holds_def)
    next
      case False
      then have same: "cache (snd (evict_block s)) ! i = cache s ! i" using e(4) by simp
      show ?thesis
      proof
        assume "holds (cache (snd (evict_block s))) (fd (cache s ! idx)) (block_index (cache s ! idx)) i"
        then have hi: "holds (cache s) (fd (cache s ! idx)) (block_index (cache s ! idx)) i"
          using same by (simp add: holds_def)
        have hx: "holds (cache s) (fd (cache s ! idx)) (block_index (cache s ! idx)) idx"
          using v n by (simp add: holds_def)
        have "i = idx" by (rule pool_uniqueD[OF u i e(1) hi hx])
        with False show False by simp
      qed
    qed
  qed
qed


lemma busy_unique: "pool_unique (busy_state os)"
  unfolding pool_unique_def by (simp add: busy_nth busy_block_def)

lemma busy_victim: "fst (evict_block (busy_state os)) = 0"
  unfolding evict_block_def busy_scan by (simp add: Let_def)

text \<open>
  C8. Every one of the six calls preserves the pool invariant: started in a state whose
  pool has its slots and in which no two slots are valid for the same descriptor and
  block index, each call ends in such a state. The slot that eviction hands out is not
  valid when it is handed out, and the pair it held before, if it was valid, is no longer
  found in the pool. A round of read or of write that misses takes the slot that eviction
  returns and works on the state that eviction returns: after eviction the pair looked for
  is in no slot, every slot but the evicted one is left as eviction left it, the system
  calls of the round follow those of eviction and the files are as eviction left them, and
  the evicted slot then holds the pair looked for (for a read, unless the pread failed).
  After a close of an open handle no slot is valid for the descriptor that was closed.
\<close>

theorem pool_invariant_preserved:
  assumes "pool_shape s" "pool_unique s"
  shows "pool_shape (snd (vtpc_open s path fl mode)) \<and> pool_unique (snd (vtpc_open s path fl mode))
    \<and> pool_shape (snd (snd (vtpc_read s h n))) \<and> pool_unique (snd (snd (vtpc_read s h n)))
    \<and> pool_shape (snd (vtpc_write s h buf n)) \<and> pool_unique (snd (vtpc_write s h buf n))
    \<and> pool_shape (snd (vtpc_lseek s h off wh)) \<and> pool_unique (snd (vtpc_lseek s h off wh))
    \<and> pool_shape (snd (vtpc_fsync s h)) \<and> pool_unique (snd (vtpc_fsync s h))
    \<and> pool_shape (snd (vtpc_close s h)) \<and> pool_unique (snd (vtpc_close s h))
    \<and> \<not> valid (cache (snd (evict_block s)) ! nat (fst (evict_block s)))
    \<and> (valid (cache s ! nat (fst (evict_block s))) \<longrightarrow>
          find_cache_block (snd (evict_block s))
            (fd (cache s ! nat (fst (evict_block s))))
            (block_index (cache s ! nat (fst (evict_block s)))) = -1)
    \<and> (find_cache_block s d b = -1 \<longrightarrow>
          fst (snd (read_block s d b)) = fst (evict_block s)
          \<and> fst (write_block s d b len) = fst (evict_block s)
          \<and> find_cache_block (snd (evict_block s)) d b = -1
          \<and> (\<forall>j<CACHE_SIZE_BLOCKS. j \<noteq> nat (fst (evict_block s)) \<longrightarrow>
                cache (snd (snd (read_block s d b))) ! j = cache (snd (evict_block s)) ! j
                \<and> cache (snd (write_block s d b len)) ! j = cache (snd (evict_block s)) ! j)
          \<and> trace (sys (snd (snd (read_block s d b))))
               = trace (sys (snd (evict_block s))) @ [Sys_pread d BLOCK_SIZE (s64 (b * BLOCK_SIZE))]
          \<and> trace (sys (snd (write_block s d b len)))
               = trace (sys (snd (evict_block s)))
                 @ (if len < BLOCK_SIZE then [Sys_pread d BLOCK_SIZE (s64 (b * BLOCK_SIZE))] else [])
          \<and> files (sys (snd (snd (read_block s d b)))) = files (sys (snd (evict_block s)))
          \<and> files (sys (snd (write_block s d b len))) = files (sys (snd (evict_block s)))
          \<and> (fst (read_block s d b) \<longrightarrow>
                holds (cache (snd (snd (read_block s d b)))) d b (nat (fst (evict_block s))))
          \<and> holds (cache (snd (write_block s d b len))) d b (nat (fst (evict_block s))))
    \<and> (\<not> bad_handle s h \<longrightarrow>
          (\<forall>i<CACHE_SIZE_BLOCKS. \<not> (valid (cache (snd (vtpc_close s h)) ! i)
              \<and> fd (cache (snd (vtpc_close s h)) ! i) = os_fd (open_files s ! nat h))))"
proof -
  have 1: "pool_shape (snd (vtpc_open s path fl mode)) \<and> pool_unique (snd (vtpc_open s path fl mode))"
    by (rule shrinks_inv[OF assms vtpc_open_frame])
  have 2: "pool_shape (snd (vtpc_lseek s h off wh)) \<and> pool_unique (snd (vtpc_lseek s h off wh))"
    using pool_cache_cong[OF vtpc_lseek_cache] assms by blast
  have 3: "pool_shape (snd (vtpc_fsync s h)) \<and> pool_unique (snd (vtpc_fsync s h))"
    by (rule shrinks_inv[OF assms vtpc_fsync_frame])
  have 4: "pool_shape (snd (vtpc_close s h)) \<and> pool_unique (snd (vtpc_close s h))"
    by (rule shrinks_inv[OF assms vtpc_close_frame])
  have 5: "\<not> valid (cache (snd (evict_block s)) ! nat (fst (evict_block s)))"
    using evict_block_effect[OF assms(1)] by (metis nat_int)
  have 6: "\<not> bad_handle s h \<longrightarrow>
          (\<forall>i<CACHE_SIZE_BLOCKS. \<not> (valid (cache (snd (vtpc_close s h)) ! i)
              \<and> fd (cache (snd (vtpc_close s h)) ! i) = os_fd (open_files s ! nat h)))"
    using vtpc_close_invalidates[OF assms(1)] by blast
  have 7: "valid (cache s ! nat (fst (evict_block s))) \<longrightarrow>
          find_cache_block (snd (evict_block s))
            (fd (cache s ! nat (fst (evict_block s))))
            (block_index (cache s ! nat (fst (evict_block s)))) = -1"
    using evict_block_forgets[OF assms] by blast
  have 8: "find_cache_block s d b = -1 \<longrightarrow>
          fst (snd (read_block s d b)) = fst (evict_block s)
          \<and> fst (write_block s d b len) = fst (evict_block s)
          \<and> find_cache_block (snd (evict_block s)) d b = -1
          \<and> (\<forall>j<CACHE_SIZE_BLOCKS. j \<noteq> nat (fst (evict_block s)) \<longrightarrow>
                cache (snd (snd (read_block s d b))) ! j = cache (snd (evict_block s)) ! j
                \<and> cache (snd (write_block s d b len)) ! j = cache (snd (evict_block s)) ! j)
          \<and> trace (sys (snd (snd (read_block s d b))))
               = trace (sys (snd (evict_block s))) @ [Sys_pread d BLOCK_SIZE (s64 (b * BLOCK_SIZE))]
          \<and> trace (sys (snd (write_block s d b len)))
               = trace (sys (snd (evict_block s)))
                 @ (if len < BLOCK_SIZE then [Sys_pread d BLOCK_SIZE (s64 (b * BLOCK_SIZE))] else [])
          \<and> files (sys (snd (snd (read_block s d b)))) = files (sys (snd (evict_block s)))
          \<and> files (sys (snd (write_block s d b len))) = files (sys (snd (evict_block s)))
          \<and> (fst (read_block s d b) \<longrightarrow>
                holds (cache (snd (snd (read_block s d b)))) d b (nat (fst (evict_block s))))
          \<and> holds (cache (snd (write_block s d b len))) d b (nat (fst (evict_block s)))"
  proof
    assume miss: "find_cache_block s d b = -1"
    note r = read_block_miss[OF assms(1) miss]
    note w = write_block_miss[where len = len, OF assms(1) miss]
    have m0: "\<forall>i<CACHE_SIZE_BLOCKS. \<not> holds (cache s) d b i"
      using miss by (simp add: find_miss_iff)
    have a: "find_cache_block (snd (evict_block s)) d b = -1"
      unfolding find_miss_iff by (rule evict_block_miss[OF assms(1) m0])
    have c: "\<forall>j<CACHE_SIZE_BLOCKS. j \<noteq> nat (fst (evict_block s)) \<longrightarrow>
                cache (snd (snd (read_block s d b))) ! j = cache (snd (evict_block s)) ! j
                \<and> cache (snd (write_block s d b len)) ! j = cache (snd (evict_block s)) ! j"
      using r(4) w(4) by blast
    have e: "fst (read_block s d b) \<longrightarrow>
                holds (cache (snd (snd (read_block s d b)))) d b (nat (fst (evict_block s)))"
      using r(5) by blast
    from r(1) w(1) a c r(2) w(2) r(3) w(3) e w(5)
    show "fst (snd (read_block s d b)) = fst (evict_block s)
          \<and> fst (write_block s d b len) = fst (evict_block s)
          \<and> find_cache_block (snd (evict_block s)) d b = -1
          \<and> (\<forall>j<CACHE_SIZE_BLOCKS. j \<noteq> nat (fst (evict_block s)) \<longrightarrow>
                cache (snd (snd (read_block s d b))) ! j = cache (snd (evict_block s)) ! j
                \<and> cache (snd (write_block s d b len)) ! j = cache (snd (evict_block s)) ! j)
          \<and> trace (sys (snd (snd (read_block s d b))))
               = trace (sys (snd (evict_block s))) @ [Sys_pread d BLOCK_SIZE (s64 (b * BLOCK_SIZE))]
          \<and> trace (sys (snd (write_block s d b len)))
               = trace (sys (snd (evict_block s)))
                 @ (if len < BLOCK_SIZE then [Sys_pread d BLOCK_SIZE (s64 (b * BLOCK_SIZE))] else [])
          \<and> files (sys (snd (snd (read_block s d b)))) = files (sys (snd (evict_block s)))
          \<and> files (sys (snd (write_block s d b len))) = files (sys (snd (evict_block s)))
          \<and> (fst (read_block s d b) \<longrightarrow>
                holds (cache (snd (snd (read_block s d b)))) d b (nat (fst (evict_block s))))
          \<and> holds (cache (snd (write_block s d b len))) d b (nat (fst (evict_block s)))"
      by (intro conjI)
  qed
  note rd = vtpc_read_inv[OF assms, of h n]
  note wr = vtpc_write_inv[OF assms, of h buf n]
  from 1 rd wr 2 3 4 5 7 8 6 show ?thesis by (intro conjI) (erule conjunct1 conjunct2 asm_rl)+
qed

theorem pool_invariant_preserved_witness:
  "pool_shape (busy_state os3) \<and> pool_unique (busy_state os3)
    \<and> \<not> bad_handle (busy_state os3) 0
    \<and> find_cache_block (busy_state os3) 3 (int CACHE_SIZE_BLOCKS) = -1
    \<and> pool_unique (snd (vtpc_open (busy_state os3) ''f'' 2 0))
    \<and> pool_unique (snd (snd (vtpc_read (busy_state os3) 0 1)))
    \<and> pool_unique (snd (vtpc_write (busy_state os3) 0 [7] 1))
    \<and> pool_unique (snd (vtpc_lseek (busy_state os3) 0 0 SEEK_SET))
    \<and> pool_unique (snd (vtpc_fsync (busy_state os3) 0))
    \<and> pool_unique (snd (vtpc_close (busy_state os3) 0))
    \<and> fst (evict_block (busy_state os3)) = 0
    \<and> holds (cache (busy_state os3)) 3 0 0
    \<and> \<not> valid (cache (snd (evict_block (busy_state os3))) ! 0)
    \<and> find_cache_block (snd (evict_block (busy_state os3))) 3 0 = -1
    \<and> fst (snd (read_block (busy_state os3) 3 (int CACHE_SIZE_BLOCKS))) = 0
    \<and> fst (write_block (busy_state os3) 3 (int CACHE_SIZE_BLOCKS) 1) = 0
    \<and> cache (snd (snd (read_block (busy_state os3) 3 (int CACHE_SIZE_BLOCKS)))) ! 1
         = cache (snd (evict_block (busy_state os3))) ! 1
    \<and> trace (sys (snd (snd (read_block (busy_state os3) 3 (int CACHE_SIZE_BLOCKS)))))
         = trace (sys (snd (evict_block (busy_state os3))))
           @ [Sys_pread 3 BLOCK_SIZE (s64 (int CACHE_SIZE_BLOCKS * BLOCK_SIZE))]
    \<and> holds (cache (snd (write_block (busy_state os3) 3 (int CACHE_SIZE_BLOCKS) 1)))
         3 (int CACHE_SIZE_BLOCKS) 0
    \<and> \<not> (valid (cache (snd (vtpc_close (busy_state os3) 0)) ! 0)
           \<and> fd (cache (snd (vtpc_close (busy_state os3) 0)) ! 0)
               = os_fd (open_files (busy_state os3) ! nat 0))"
proof -
  let ?B = "busy_state os3"
  note p = pool_invariant_preserved[OF busy_shape busy_unique, of os3]
  note q = p[of "''f''" 2 0 0 1 "[7]" 0 SEEK_SET 3 "int CACHE_SIZE_BLOCKS" 1,
             unfolded busy_victim]
  have h0: "holds (cache ?B) 3 0 0"
    using CSB_pos by (simp add: holds_def busy_nth busy_block_def)
  then have v0: "valid (cache ?B ! nat 0)" "fd (cache ?B ! nat 0) = 3"
    "block_index (cache ?B ! nat 0) = 0"
    by (simp_all add: holds_def)
  have one: "(1::nat) < CACHE_SIZE_BLOCKS" "(1::nat) \<noteq> nat 0" using CSB_gt1 by simp_all
  have z: "(0::nat) < CACHE_SIZE_BLOCKS" by (rule CSB_pos)
  from q have a: "pool_unique (snd (vtpc_open ?B ''f'' 2 0))"
    "pool_unique (snd (snd (vtpc_read ?B 0 1)))"
    "pool_unique (snd (vtpc_write ?B 0 [7] 1))"
    "pool_unique (snd (vtpc_lseek ?B 0 0 SEEK_SET))"
    "pool_unique (snd (vtpc_fsync ?B 0))"
    "pool_unique (snd (vtpc_close ?B 0))"
    "\<not> valid (cache (snd (evict_block ?B)) ! nat 0)"
    by blast+
  from q have b: "valid (cache ?B ! nat 0) \<longrightarrow>
          find_cache_block (snd (evict_block ?B)) (fd (cache ?B ! nat 0))
            (block_index (cache ?B ! nat 0)) = -1"
    by blast
  from q have c: "find_cache_block ?B 3 (int CACHE_SIZE_BLOCKS) = -1 \<longrightarrow>
          fst (snd (read_block ?B 3 (int CACHE_SIZE_BLOCKS))) = 0
          \<and> fst (write_block ?B 3 (int CACHE_SIZE_BLOCKS) 1) = 0
          \<and> find_cache_block (snd (evict_block ?B)) 3 (int CACHE_SIZE_BLOCKS) = -1
          \<and> (\<forall>j<CACHE_SIZE_BLOCKS. j \<noteq> nat 0 \<longrightarrow>
                cache (snd (snd (read_block ?B 3 (int CACHE_SIZE_BLOCKS)))) ! j
                  = cache (snd (evict_block ?B)) ! j
                \<and> cache (snd (write_block ?B 3 (int CACHE_SIZE_BLOCKS) 1)) ! j
                  = cache (snd (evict_block ?B)) ! j)
          \<and> trace (sys (snd (snd (read_block ?B 3 (int CACHE_SIZE_BLOCKS)))))
               = trace (sys (snd (evict_block ?B)))
                 @ [Sys_pread 3 BLOCK_SIZE (s64 (int CACHE_SIZE_BLOCKS * BLOCK_SIZE))]
          \<and> trace (sys (snd (write_block ?B 3 (int CACHE_SIZE_BLOCKS) 1)))
               = trace (sys (snd (evict_block ?B)))
                 @ (if 1 < BLOCK_SIZE
                    then [Sys_pread 3 BLOCK_SIZE (s64 (int CACHE_SIZE_BLOCKS * BLOCK_SIZE))] else [])
          \<and> files (sys (snd (snd (read_block ?B 3 (int CACHE_SIZE_BLOCKS)))))
               = files (sys (snd (evict_block ?B)))
          \<and> files (sys (snd (write_block ?B 3 (int CACHE_SIZE_BLOCKS) 1)))
               = files (sys (snd (evict_block ?B)))
          \<and> (fst (read_block ?B 3 (int CACHE_SIZE_BLOCKS)) \<longrightarrow>
                holds (cache (snd (snd (read_block ?B 3 (int CACHE_SIZE_BLOCKS))))) 3
                  (int CACHE_SIZE_BLOCKS) (nat 0))
          \<and> holds (cache (snd (write_block ?B 3 (int CACHE_SIZE_BLOCKS) 1))) 3
                  (int CACHE_SIZE_BLOCKS) (nat 0)"
    by blast
  from q have d: "\<not> bad_handle ?B 0 \<longrightarrow>
          (\<forall>i<CACHE_SIZE_BLOCKS. \<not> (valid (cache (snd (vtpc_close ?B 0)) ! i)
              \<and> fd (cache (snd (vtpc_close ?B 0)) ! i) = os_fd (open_files ?B ! nat 0)))"
    by blast
  from b v0 have b': "find_cache_block (snd (evict_block ?B)) 3 0 = -1" by simp
  from c busy_miss[of os3] have c':
    "fst (snd (read_block ?B 3 (int CACHE_SIZE_BLOCKS))) = 0"
    "fst (write_block ?B 3 (int CACHE_SIZE_BLOCKS) 1) = 0"
    "\<forall>j<CACHE_SIZE_BLOCKS. j \<noteq> nat 0 \<longrightarrow>
                cache (snd (snd (read_block ?B 3 (int CACHE_SIZE_BLOCKS)))) ! j
                  = cache (snd (evict_block ?B)) ! j
                \<and> cache (snd (write_block ?B 3 (int CACHE_SIZE_BLOCKS) 1)) ! j
                  = cache (snd (evict_block ?B)) ! j"
    "trace (sys (snd (snd (read_block ?B 3 (int CACHE_SIZE_BLOCKS)))))
               = trace (sys (snd (evict_block ?B)))
                 @ [Sys_pread 3 BLOCK_SIZE (s64 (int CACHE_SIZE_BLOCKS * BLOCK_SIZE))]"
    "holds (cache (snd (write_block ?B 3 (int CACHE_SIZE_BLOCKS) 1))) 3
                  (int CACHE_SIZE_BLOCKS) (nat 0)"
    by blast+
  from c'(3) one have c3: "cache (snd (snd (read_block ?B 3 (int CACHE_SIZE_BLOCKS)))) ! 1
         = cache (snd (evict_block ?B)) ! 1" by blast
  from d busy_good[of os3] z have d': "\<not> (valid (cache (snd (vtpc_close ?B 0)) ! 0)
           \<and> fd (cache (snd (vtpc_close ?B 0)) ! 0) = os_fd (open_files ?B ! nat 0))"
    by blast
  have n0: "nat 0 = (0::nat)" by simp
  note a7 = a(7)[unfolded n0]
  note c5 = c'(5)[unfolded n0]
  from busy_shape[of os3] busy_unique[of os3] busy_good[of os3] busy_miss[of os3]
    a(1-6) busy_victim[of os3] h0 a7 b' c'(1,2) c3 c'(4) c5 d'
  show ?thesis by (intro conjI)
qed

subsection \<open>A short write-back in vtpc_fsync\<close>

lemma fsync_loop_skip:
  "\<forall>i \<in> set js. \<not> (valid (cache s ! i) \<and> fd (cache s ! i) = d \<and> dirty (cache s ! i))
     \<Longrightarrow> fsync_loop s d js = (True, s)"
proof (induction js)
  case Nil
  show ?case by simp
next
  case (Cons i js)
  have a: "\<not> (valid (cache s ! i) \<and> fd (cache s ! i) = d \<and> dirty (cache s ! i))"
    using Cons.prems by simp
  have b: "\<forall>i \<in> set js. \<not> (valid (cache s ! i) \<and> fd (cache s ! i) = d \<and> dirty (cache s ! i))"
    using Cons.prems by simp
  have "fsync_loop s d (i # js) = fsync_loop s d js"
    by (subst fsync_loop.simps(2)) (simp only: Let_def if_not_P[OF a])
  with Cons.IH[OF b] show ?case by simp
qed

lemma short_pwrite:
  "os_pwrite (os3\<lparr>faults := [Short 100]\<rparr>) 3 (replicate (nat BLOCK_SIZE) 7) BLOCK_SIZE 0
     = (100, os3\<lparr>faults := [], trace := [Sys_pwrite 3 (replicate (nat BLOCK_SIZE) 7) 0],
              files := (files os3)(3 := replicate 100 7)\<rparr>)"
  by (simp add: os_pwrite_def sys_enter_def limit_def store_def os3_def os0_def BLOCK_SIZE_def)

lemma one_dirty_short:
  "vtpc_fsync (one_dirty_state (os3\<lparr>faults := [Short 100]\<rparr>)) 0
     = (0, (one_dirty_state (os3\<lparr>faults := [Short 100]\<rparr>))
          \<lparr>sys := os3\<lparr>faults := [],
                  trace := [Sys_pwrite 3 (replicate (nat BLOCK_SIZE) 7) 0, Sys_fsync 3,
                            Sys_ftruncate 3 BLOCK_SIZE],
                  files := (files os3)(3 := replicate 100 7 @ replicate 3996 0)\<rparr>,
            cache := (cache (one_dirty_state (os3\<lparr>faults := [Short 100]\<rparr>)))
               [0 := (cache (one_dirty_state (os3\<lparr>faults := [Short 100]\<rparr>)) ! 0)
                       \<lparr>dirty := False\<rparr>]\<rparr>)"
proof -
  let ?os = "os3\<lparr>faults := [Short 100]\<rparr>"
  let ?S = "one_dirty_state ?os"
  let ?os1 = "os3\<lparr>faults := [], trace := [Sys_pwrite 3 (replicate (nat BLOCK_SIZE) 7) 0],
              files := (files os3)(3 := replicate 100 7)\<rparr>"
  let ?S1 = "?S\<lparr>sys := ?os1, cache := (cache ?S)[0 := (cache ?S ! 0)\<lparr>dirty := False\<rparr>]\<rparr>"
  have sy: "sys ?S = ?os" by (simp add: one_dirty_state_def)
  have z0: "s64 0 = 0" by (simp add: s64_def)
  have rest: "\<forall>i \<in> set [Suc 0..<CACHE_SIZE_BLOCKS].
      \<not> (valid (cache ?S1 ! i) \<and> fd (cache ?S1 ! i) = 3 \<and> dirty (cache ?S1 ! i))"
    by (simp add: one_dirty_state_def blank_block_def)
  have step: "fsync_loop ?S 3 (0 # [Suc 0..<CACHE_SIZE_BLOCKS])
      = fsync_loop ?S1 3 [Suc 0..<CACHE_SIZE_BLOCKS]"
    using short_pwrite by (simp add: one_dirty_slot0 Let_def z0 sy)
  have lp: "fsync_loop ?S 3 [0..<CACHE_SIZE_BLOCKS] = (True, ?S1)"
    unfolding upt_CSB step by (rule fsync_loop_skip[OF rest])
  have fs: "os_fsync ?os1 3 = (0, ?os1\<lparr>trace := trace ?os1 @ [Sys_fsync 3]\<rparr>)"
    by (simp add: os_fsync_def sys_enter_def os3_def os0_def)
  have ft: "os_ftruncate (?os1\<lparr>trace := trace ?os1 @ [Sys_fsync 3]\<rparr>) 3 BLOCK_SIZE
      = (0, os3\<lparr>faults := [],
                  trace := [Sys_pwrite 3 (replicate (nat BLOCK_SIZE) 7) 0, Sys_fsync 3,
                            Sys_ftruncate 3 BLOCK_SIZE],
                  files := (files os3)(3 := replicate 100 7 @ replicate 3996 0)\<rparr>)"
    by (simp add: os_ftruncate_def sys_enter_def resize_def os3_def os0_def BLOCK_SIZE_def)
  have fsz: "file_size (open_files ?S1 ! nat 0) = BLOCK_SIZE"
    by (simp add: one_dirty_handle0)
  show ?thesis
    using one_dirty_good[of ?os] lp fs ft fsz
    by (simp add: vtpc_fsync_def one_dirty_handle0 Let_def)
qed

text \<open>
  C4 (the code departs from the claim). vtpc_fsync takes a write-back as failed only when
  pwrite returns -1. Here one block is dirty and its pwrite is short: 100 of the 4096
  bytes reach the file. vtpc_fsync clears the dirty flag all the same, goes on to the
  barrier and the ftruncate and returns 0; the file holds 100 bytes of the block and zeros
  after them, and the block is no longer marked for write-back. When the same pwrite
  returns -1, vtpc_fsync returns -1 at once, with the flag still set and neither barrier
  nor ftruncate; and the write-back of eviction reports a short write as failed.
\<close>

theorem fsync_short_write_clears_dirty:
  "dirty (cache (one_dirty_state (os3\<lparr>faults := [Short 100]\<rparr>)) ! 0)
   \<and> holds (cache (one_dirty_state (os3\<lparr>faults := [Short 100]\<rparr>))) 3 0 0
   \<and> fst (vtpc_fsync (one_dirty_state (os3\<lparr>faults := [Short 100]\<rparr>)) 0) = 0
   \<and> \<not> dirty (cache (snd (vtpc_fsync (one_dirty_state (os3\<lparr>faults := [Short 100]\<rparr>)) 0)) ! 0)
   \<and> data (cache (snd (vtpc_fsync (one_dirty_state (os3\<lparr>faults := [Short 100]\<rparr>)) 0)) ! 0)
        = replicate (nat BLOCK_SIZE) 7
   \<and> files (sys (snd (vtpc_fsync (one_dirty_state (os3\<lparr>faults := [Short 100]\<rparr>)) 0))) 3
        = replicate 100 7 @ replicate 3996 0
   \<and> trace (sys (snd (vtpc_fsync (one_dirty_state (os3\<lparr>faults := [Short 100]\<rparr>)) 0)))
        = [Sys_pwrite 3 (replicate (nat BLOCK_SIZE) 7) 0, Sys_fsync 3, Sys_ftruncate 3 BLOCK_SIZE]
   \<and> fst (vtpc_fsync (one_dirty_state (os3\<lparr>faults := [Fail]\<rparr>)) 0) = -1
   \<and> dirty (cache (snd (vtpc_fsync (one_dirty_state (os3\<lparr>faults := [Fail]\<rparr>)) 0)) ! 0)
   \<and> trace (sys (snd (vtpc_fsync (one_dirty_state (os3\<lparr>faults := [Fail]\<rparr>)) 0)))
        = [Sys_pwrite 3 (replicate (nat BLOCK_SIZE) 7) 0]
   \<and> Sys_perror ''vtpc: eviction write failed''
        \<in> set (trace (sys (evict_writeback (one_dirty_state (os3\<lparr>faults := [Normal, Short 100]\<rparr>))
                 (cache (one_dirty_state (os3\<lparr>faults := [Normal, Short 100]\<rparr>)) ! 0))))"
proof -
  let ?os = "os3\<lparr>faults := [Short 100]\<rparr>"
  let ?S = "one_dirty_state ?os"
  have len: "0 < length (cache ?S)"
    using one_dirty_shape[of ?os] CSB_pos by (simp add: pool_shape_def)
  have 2: "dirty (cache ?S ! 0)" "holds (cache ?S) 3 0 0"
    by (simp_all add: one_dirty_slot0 holds_def)
  have 3: "fst (vtpc_fsync ?S 0) = 0" unfolding one_dirty_short by simp
  have 4: "\<not> dirty (cache (snd (vtpc_fsync ?S 0)) ! 0)"
    unfolding one_dirty_short using len by simp
  have 5: "data (cache (snd (vtpc_fsync ?S 0)) ! 0) = replicate (nat BLOCK_SIZE) 7"
    unfolding one_dirty_short using len by (simp add: one_dirty_slot0)
  have 6: "files (sys (snd (vtpc_fsync ?S 0))) 3 = replicate 100 7 @ replicate 3996 0"
    unfolding one_dirty_short by simp
  have 7: "trace (sys (snd (vtpc_fsync ?S 0)))
        = [Sys_pwrite 3 (replicate (nat BLOCK_SIZE) 7) 0, Sys_fsync 3, Sys_ftruncate 3 BLOCK_SIZE]"
    unfolding one_dirty_short by simp
  have fl: "faults (os3\<lparr>faults := [Fail]\<rparr>) = [Fail]" by simp
  have 8: "fst (vtpc_fsync (one_dirty_state (os3\<lparr>faults := [Fail]\<rparr>)) 0) = -1"
    unfolding one_dirty_fsync_fails[OF fl] by simp
  have 9: "dirty (cache (snd (vtpc_fsync (one_dirty_state (os3\<lparr>faults := [Fail]\<rparr>)) 0)) ! 0)"
    unfolding one_dirty_fsync_fails[OF fl] by (simp add: one_dirty_slot0)
  have 11: "trace (sys (snd (vtpc_fsync (one_dirty_state (os3\<lparr>faults := [Fail]\<rparr>)) 0)))
        = [Sys_pwrite 3 (replicate (nat BLOCK_SIZE) 7) 0]"
    unfolding one_dirty_fsync_fails[OF fl]
    by (simp add: writeback_call_def one_dirty_slot0 s64_def os3_def os0_def)
  have 10: "Sys_perror ''vtpc: eviction write failed''
        \<in> set (trace (sys (evict_writeback (one_dirty_state (os3\<lparr>faults := [Normal, Short 100]\<rparr>))
                 (cache (one_dirty_state (os3\<lparr>faults := [Normal, Short 100]\<rparr>)) ! 0))))"
    unfolding one_dirty_slot0
    by (simp add: evict_writeback_def os_lseek_def os_write_def os_perror_def
          sys_enter_def limit_def s64_def one_dirty_state_def os3_def os0_def BLOCK_SIZE_def)
  from 2 3 4 5 6 7 8 9 11 10 show ?thesis by (intro conjI)
qed

subsection \<open>The first open constructs the pool\<close>







subsection \<open>Writing and reading back\<close>





subsection \<open>A partial write into a block\<close>










subsection \<open>Traffic that evicts the block\<close>











subsection \<open>One round of a call\<close>








end
